theory Spec2Isabelle
  imports Complex_Main "HOL-Library.Log_Nat"
begin

section \<open>JavaScript values used by the counter reducer\<close>

subsection \<open>Numbers\<close>

text \<open>
  A JavaScript Number is an IEEE 754 binary64 value.  A finite non-zero double is
  represented by the rational number it denotes, \<open>Fin 0\<close> is \<open>+0\<close> and
  \<open>NegZero\<close> is \<open>-0\<close>.  \<open>Fin q\<close> denotes a genuine double exactly when
  \<open>is_double q\<close> holds.
\<close>

datatype jsnum = NaN | PosInf | NegInf | NegZero | Fin rat

text \<open>Rounding to the nearest integer, ties to the even one.\<close>

definition round_half_even :: "rat \<Rightarrow> int" where
  "round_half_even x =
     (let f = \<lfloor>x\<rfloor>; d = x - of_int f
      in if d < 1 / 2 then f
         else if 1 / 2 < d then f + 1
         else if even f then f else f + 1)"

text \<open>For \<open>0 < x\<close>, the integer \<open>e\<close> with \<open>2 powi e \<le> x < 2 powi (e + 1)\<close>.\<close>

definition floor_log2 :: "rat \<Rightarrow> int" where
  "floor_log2 x = (if 1 \<le> x then bitlen \<lfloor>x\<rfloor> - 1 else - bitlen (\<lceil>1 / x\<rceil> - 1))"

text \<open>
  The binary64 result of an exact rational value under round-to-nearest, ties-to-even:
  53 significant bits, least exponent \<open>-1022\<close> (below it the spacing stays
  \<open>2 powi (-1074)\<close>), overflow to an infinity from \<open>2 ^ 1024\<close> on.  An exact zero is
  \<open>+0\<close>, as for a sum of two doubles of opposite sign.
\<close>

definition overflow_bound :: int where
  "overflow_bound = 2 ^ 1024"

definition to_double :: "rat \<Rightarrow> jsnum" where
  "to_double x =
     (if x = 0 then Fin 0
      else let e = max (floor_log2 \<bar>x\<bar>) (- 1022);
               ulp = 2 powi (e - 52);
               r = of_int (round_half_even (x / ulp)) * ulp
           in if of_int overflow_bound \<le> \<bar>r\<bar> then (if 0 < x then PosInf else NegInf)
              else if r = 0 then (if 0 < x then Fin 0 else NegZero)
              else Fin r)"

definition is_double :: "rat \<Rightarrow> bool" where
  "is_double q \<longleftrightarrow> to_double q = Fin q"

text \<open>\<open>Number::add\<close> of ECMAScript: the sum of two Numbers.\<close>

fun num_add :: "jsnum \<Rightarrow> jsnum \<Rightarrow> jsnum" where
  "num_add NaN y = NaN"
| "num_add x NaN = NaN"
| "num_add PosInf NegInf = NaN"
| "num_add NegInf PosInf = NaN"
| "num_add PosInf y = PosInf"
| "num_add NegInf y = NegInf"
| "num_add x PosInf = PosInf"
| "num_add x NegInf = NegInf"
| "num_add NegZero y = y"
| "num_add x NegZero = x"
| "num_add (Fin a) (Fin b) = to_double (a + b)"

text \<open>\<open>Number.isInteger\<close>, and the numeric value of a finite Number.\<close>

fun is_integer :: "jsnum \<Rightarrow> bool" where
  "is_integer (Fin q) = (q \<in> \<int>)"
| "is_integer NegZero = True"
| "is_integer n = False"

fun num_val :: "jsnum \<Rightarrow> rat" where
  "num_val (Fin q) = q"
| "num_val n = 0"

text \<open>A Number of the model is a genuine double.\<close>

fun wf_num :: "jsnum \<Rightarrow> bool" where
  "wf_num (Fin q) = is_double q"
| "wf_num n = True"

subsection \<open>Values, objects and the heap\<close>

text \<open>
  The values are the seven kinds of primitive (\<open>undefined\<close>, \<open>null\<close>, booleans, Numbers,
  strings, BigInts, and symbols, each symbol being its identity) and references to
  plain objects: objects whose prototype is \<open>Object.prototype\<close>, with their own
  string-keyed data properties in insertion order.  Arrays, functions, accessor
  properties and symbol-keyed properties are outside the model.  The heap is the list of
  the objects allocated so far; an object's address is its index, and allocation
  appends.
\<close>

datatype jsval =
  JUndefined | JNull | JBool bool | JNum jsnum | JStr string | JBigInt int | JSymbol nat
  | JRef nat

type_synonym obj = "(string \<times> jsval) list"

type_synonym heap = "obj list"

text \<open>
  \<open>TypeError\<close> is the exception of the source language.  \<open>DanglingRef\<close> is the outcome of
  following a reference to an address outside the heap, which no JavaScript program
  can hold; it keeps the model total.
\<close>

datatype js_error = TypeError | DanglingRef

definition valid :: "heap \<Rightarrow> jsval \<Rightarrow> bool" where
  "valid h v = (case v of JRef a \<Rightarrow> a < length h | _ \<Rightarrow> True)"

definition new_object :: "heap \<Rightarrow> obj \<Rightarrow> jsval \<times> heap" where
  "new_object h ob = (JRef (length h), h @ [ob])"

text \<open>
  The property read \<open>v.k\<close> for the two names the source reads, \<open>type\<close> and \<open>clicks\<close>, which
  no built-in prototype defines: the own property of a plain object, \<open>undefined\<close> when
  the object has none and on every boolean, Number, string, BigInt and symbol; a
  \<open>TypeError\<close> on \<open>undefined\<close> and \<open>null\<close>.  Prototypes are not modelled: for a name that
  \<open>Object.prototype\<close> or a wrapper prototype defines (\<open>toString\<close>, \<open>constructor\<close>, ...) the
  read of JavaScript is the inherited value, not what this function returns, and no
  property below speaks of such a read's value.
\<close>

definition get_own :: "obj \<Rightarrow> string \<Rightarrow> jsval" where
  "get_own ob k = (case map_of ob k of None \<Rightarrow> JUndefined | Some v \<Rightarrow> v)"

fun get_prop :: "heap \<Rightarrow> jsval \<Rightarrow> string \<Rightarrow> js_error + jsval" where
  "get_prop h JUndefined k = Inl TypeError"
| "get_prop h JNull k = Inl TypeError"
| "get_prop h (JRef a) k =
     (if a < length h then Inr (get_own (h ! a) k) else Inl DanglingRef)"
| "get_prop h v k = Inr JUndefined"

text \<open>
  The expression \<open>v + 1\<close>.  A string operand gives concatenation with \<open>"1"\<close>;
  \<open>undefined\<close>, \<open>null\<close>, booleans and Numbers are converted to a Number and added; a BigInt
  cannot be mixed with the Number \<open>1\<close> and a symbol cannot be converted to a Number, and
  both throw a \<open>TypeError\<close>.  A plain object is first converted to
  a primitive: the inherited \<open>valueOf\<close> returns the object itself, so \<open>toString\<close>
  decides; the inherited one gives \<open>"[object Object]"\<close>, while an own property
  \<open>toString\<close> holds a value of the model, none of which is callable, and the conversion
  throws a \<open>TypeError\<close>.
\<close>

definition plus_one :: "heap \<Rightarrow> jsval \<Rightarrow> js_error + jsval" where
  "plus_one h v =
     (case v of
        JUndefined \<Rightarrow> Inr (JNum (num_add NaN (Fin 1)))
      | JNull \<Rightarrow> Inr (JNum (num_add (Fin 0) (Fin 1)))
      | JBool b \<Rightarrow> Inr (JNum (num_add (Fin (if b then 1 else 0)) (Fin 1)))
      | JNum n \<Rightarrow> Inr (JNum (num_add n (Fin 1)))
      | JStr s \<Rightarrow> Inr (JStr (s @ ''1''))
      | JBigInt n \<Rightarrow> Inl TypeError
      | JSymbol i \<Rightarrow> Inl TypeError
      | JRef a \<Rightarrow>
          (if length h \<le> a then Inl DanglingRef
           else if map_of (h ! a) ''toString'' = None
             then Inr (JStr (''[object Object]'' @ ''1''))
             else Inl TypeError))"

section \<open>The reducer\<close>

text \<open>
  \<^verbatim>\<open>
  export default function counterReducer(state = { clicks: 0 }, action) {
    switch (action.type) {
      case 'INCREASE_COUNT':
        return { clicks: state.clicks + 1 }
      default:
        return state;
    }
  }
  \<close>
  The default value of \<open>state\<close> is used exactly when the argument is \<open>undefined\<close>, and it
  is a new object at every such call.  The \<open>switch\<close> compares with \<open>===\<close>.  An object
  literal is one allocation of the finished record.  The function returns its outcome
  (the exception or the returned value) together with the heap it leaves behind.
\<close>

definition counterReducer :: "heap \<Rightarrow> jsval \<Rightarrow> jsval \<Rightarrow> (js_error + jsval) \<times> heap" where
  "counterReducer h state0 action =
     (let (state, h1) =
            (if state0 = JUndefined then new_object h [(''clicks'', JNum (Fin 0))]
             else (state0, h))
      in case get_prop h1 action ''type'' of
           Inl e \<Rightarrow> (Inl e, h1)
         | Inr t \<Rightarrow>
             if t = JStr ''INCREASE_COUNT'' then
               (case get_prop h1 state ''clicks'' of
                  Inl e \<Rightarrow> (Inl e, h1)
                | Inr c \<Rightarrow>
                    (case plus_one h1 c of
                       Inl e \<Rightarrow> (Inl e, h1)
                     | Inr v \<Rightarrow>
                         (let (r, h2) = new_object h1 [(''clicks'', v)] in (Inr r, h2))))
             else (Inr state, h1))"

text \<open>
  Reducing a list of actions from a state, as successive dispatches do: each returned
  state is the next call's state; the first exception ends the run.
\<close>

fun reduce_all :: "heap \<Rightarrow> jsval \<Rightarrow> jsval list \<Rightarrow> (js_error + jsval) \<times> heap" where
  "reduce_all h s [] = (Inr s, h)"
| "reduce_all h s (a # as) =
     (case counterReducer h s a of
        (Inl e, h') \<Rightarrow> (Inl e, h')
      | (Inr s', h') \<Rightarrow> reduce_all h' s' as)"

text \<open>
  The \<open>clicks\<close> read from the state after seeding with \<open>counterReducer(undefined, init)\<close>
  and then reducing \<open>n\<close> times with the action \<open>inc\<close>.
\<close>

definition clicks_after :: "heap \<Rightarrow> jsval \<Rightarrow> jsval \<Rightarrow> nat \<Rightarrow> js_error + jsval" where
  "clicks_after h init inc n =
     (case counterReducer h JUndefined init of
        (Inl e, h0) \<Rightarrow> Inl e
      | (Inr s0, h0) \<Rightarrow>
          (case reduce_all h0 s0 (replicate n inc) of
             (Inl e, h') \<Rightarrow> Inl e
           | (Inr s, h') \<Rightarrow> get_prop h' s ''clicks''))"

text \<open>The heap of the scenarios: an init action, an increase action and an unhandled one.\<close>

definition scenario_heap :: heap where
  "scenario_heap =
     [[(''type'', JStr ''@@INIT'')],
      [(''type'', JStr ''INCREASE_COUNT'')],
      [(''type'', JStr ''DECREASE_COUNT'')]]"

text \<open>The same heap with a state that carries a field besides \<open>clicks\<close>.\<close>

definition extra_heap :: heap where
  "extra_heap = scenario_heap @ [[(''clicks'', JNum (Fin 5)), (''user'', JStr ''ann'')]]"

text \<open>The numeric value of a value that is a finite Number.\<close>

definition number_value :: "jsval \<Rightarrow> rat" where
  "number_value v = (case v of JNum n \<Rightarrow> num_val n | _ \<Rightarrow> 0)"

text \<open>The same heap with a state whose counter is the BigInt \<open>1n\<close>.\<close>

definition bigint_heap :: heap where
  "bigint_heap = scenario_heap @ [[(''clicks'', JBigInt 1)]]"

text \<open>The same heap with a state whose counter has reached \<open>2 ^ 53\<close>.\<close>

definition saturated_heap :: heap where
  "saturated_heap = scenario_heap @ [[(''clicks'', JNum (Fin (2 ^ 53)))]]"

section \<open>Predicates of the properties\<close>

text \<open>A value is an integer Number, and a non-negative one.\<close>

definition integer_value :: "jsval \<Rightarrow> bool" where
  "integer_value v = (case v of JNum n \<Rightarrow> wf_num n \<and> is_integer n | _ \<Rightarrow> False)"

definition nonneg_integer :: "jsval \<Rightarrow> bool" where
  "nonneg_integer v =
     (case v of JNum n \<Rightarrow> wf_num n \<and> is_integer n \<and> 0 \<le> num_val n | _ \<Rightarrow> False)"

text \<open>The state \<open>s\<close> has a \<open>clicks\<close> field that is a non-negative integer.\<close>

definition clicks_nonneg_integer :: "heap \<Rightarrow> jsval \<Rightarrow> bool" where
  "clicks_nonneg_integer h s =
     (case get_prop h s ''clicks'' of Inr v \<Rightarrow> nonneg_integer v | Inl e \<Rightarrow> False)"

text \<open>
  The value is \<open>undefined\<close>, \<open>null\<close>, a boolean, a Number or a string: the primitives to
  which \<open>1\<close> can be added.  A BigInt and a symbol are primitives too, and are not among
  them.
\<close>

definition addable :: "jsval \<Rightarrow> bool" where
  "addable v =
     (case v of
        JUndefined \<Rightarrow> True | JNull \<Rightarrow> True | JBool b \<Rightarrow> True | JNum n \<Rightarrow> True
      | JStr s \<Rightarrow> True | JBigInt n \<Rightarrow> False | JSymbol i \<Rightarrow> False | JRef a \<Rightarrow> False)"

text \<open>Every reference stored in an object of the heap is an address of the heap.\<close>

definition wf_heap :: "heap \<Rightarrow> bool" where
  "wf_heap h = (\<forall>ob \<in> set h. \<forall>kv \<in> set ob. valid h (snd kv))"

text \<open>
  What a caller can observe of an outcome without comparing addresses: the exception,
  the primitive value, or the fields of the object returned.
\<close>

definition observe :: "heap \<Rightarrow> js_error + jsval \<Rightarrow> js_error + (jsval + obj)" where
  "observe h r =
     (case r of
        Inl e \<Rightarrow> Inl e
      | Inr v \<Rightarrow>
          (case v of
             JRef b \<Rightarrow> (if b < length h then Inr (Inr (h ! b)) else Inl DanglingRef)
           | _ \<Rightarrow> Inr (Inl v)))"

section \<open>Rounding of integers\<close>

lemma round_half_even_of_int: "round_half_even (of_int k) = k"
  by (simp add: round_half_even_def)

lemma round_half_even_ge: "of_int m \<le> x \<Longrightarrow> m \<le> round_half_even x"
proof -
  assume "of_int m \<le> x"
  then have "m \<le> \<lfloor>x\<rfloor>" by (simp add: le_floor_iff)
  then show ?thesis by (simp add: round_half_even_def Let_def)
qed

lemma round_half_even_le: "x \<le> of_int m \<Longrightarrow> round_half_even x \<le> m"
proof (cases "x = of_int m")
  case True
  then show ?thesis by (simp add: round_half_even_of_int)
next
  case False
  assume "x \<le> of_int m"
  with False have "x < of_int m" by simp
  then have "\<lfloor>x\<rfloor> < m" by (simp add: floor_less_iff)
  then show ?thesis by (simp add: round_half_even_def Let_def)
qed

lemma overflow_bound_gt: "2 ^ 53 < overflow_bound" "2 ^ 54 + 3 < overflow_bound"
  by (simp_all add: overflow_bound_def)

lemma floor_log2_of_int: "0 < n \<Longrightarrow> floor_log2 (of_int n) = bitlen n - 1"
  by (simp add: floor_log2_def)

lemma powi_two_nonpos: "n \<le> 0 \<Longrightarrow> (2::rat) powi n = 1 / 2 ^ nat (- n)"
  by (cases "n = 0") (simp_all add: power_int_def inverse_eq_divide power_one_over)

lemma powi_two_nonneg: "0 \<le> n \<Longrightarrow> (2::rat) powi n = of_int (2 ^ nat n)"
  by (simp add: power_int_def)

text \<open>\<open>floor_log2\<close> is the binary exponent of every positive rational.\<close>

lemma floor_log2_bounds:
  assumes "0 < x"
  shows "2 powi floor_log2 x \<le> x \<and> x < 2 powi (floor_log2 x + 1)"
proof (cases "1 \<le> x")
  case True
  define n where "n = \<lfloor>x\<rfloor>"
  have n: "1 \<le> n" unfolding n_def using True by (simp add: le_floor_iff)
  then have npos: "0 < n" by simp
  have b: "1 \<le> bitlen n" using n by (simp add: bitlen_ge_iff_power)
  have e: "floor_log2 x = bitlen n - 1" using True by (simp add: floor_log2_def n_def)
  have lo: "2 ^ nat (bitlen n - 1) \<le> n" and hi: "n < 2 ^ nat (bitlen n)"
    using bitlen_bounds [OF npos] by simp_all
  have "rat_of_int (2 ^ nat (bitlen n - 1)) \<le> of_int n" using lo by (simp only: of_int_le_iff)
  also have "\<dots> \<le> x" by (simp add: n_def)
  finally have 1: "2 powi (bitlen n - 1) \<le> x" using b by (simp add: powi_two_nonneg)
  have "n + 1 \<le> 2 ^ nat (bitlen n)" using hi by simp
  then have "rat_of_int (n + 1) \<le> of_int (2 ^ nat (bitlen n))" by (simp only: of_int_le_iff)
  moreover have "x < of_int (n + 1)" unfolding n_def by linarith
  ultimately have "x < of_int (2 ^ nat (bitlen n))" by linarith
  then have 2: "x < 2 powi (bitlen n - 1 + 1)" using b by (simp add: powi_two_nonneg)
  show ?thesis unfolding e using 1 2 by simp
next
  case False
  define y where "y = 1 / x"
  define m where "m = \<lceil>y\<rceil> - 1"
  define b where "b = bitlen m"
  have y: "1 < y" unfolding y_def using assms False by simp
  then have "2 \<le> \<lceil>y\<rceil>" by (simp add: le_ceiling_iff)
  then have m: "1 \<le> m" by (simp add: m_def)
  then have mpos: "0 < m" by simp
  have my: "of_int m < y" "y \<le> of_int m + 1" unfolding m_def by linarith+
  have b1: "1 \<le> b" unfolding b_def using m by (simp add: bitlen_ge_iff_power)
  have e: "floor_log2 x = - b" using False by (simp add: floor_log2_def y_def m_def b_def)
  have lo: "2 ^ nat (b - 1) \<le> m" and hi: "m < 2 ^ nat b"
    using bitlen_bounds [OF mpos] by (simp_all add: b_def)
  have "m + 1 \<le> 2 ^ nat b" using hi by simp
  then have "rat_of_int (m + 1) \<le> of_int (2 ^ nat b)" by (simp only: of_int_le_iff)
  then have yle: "y \<le> 2 ^ nat b" using my(2) by simp
  have "rat_of_int (2 ^ nat (b - 1)) \<le> of_int m" using lo by (simp only: of_int_le_iff)
  then have "rat_of_int (2 ^ nat (b - 1)) < y" using my(1) by linarith
  then have ygt: "2 ^ nat (b - 1) < y" by simp
  have x: "x = 1 / y" by (simp add: y_def)
  have ypos: "0 < y" using y by simp
  have "1 / 2 ^ nat b \<le> 1 / y" using yle ypos by (simp add: frac_le)
  then have 1: "2 powi (- b) \<le> x" using b1 by (simp add: powi_two_nonpos x)
  have "1 / y < 1 / 2 ^ nat (b - 1)" using ygt by (simp add: frac_less2)
  moreover have "(2::rat) powi (- b + 1) = 1 / 2 ^ nat (b - 1)"
    using b1 powi_two_nonpos [of "- b + 1"] by simp
  ultimately have 2: "x < 2 powi (- b + 1)" by (simp add: x)
  show ?thesis unfolding e using 1 2 by simp
qed

lemma to_double_of_int_small:
  assumes "k \<noteq> 0" and "\<bar>k\<bar> < 2 ^ 53"
  shows "to_double (of_int k) = Fin (of_int k)"
proof -
  define B where "B = bitlen \<bar>k\<bar>"
  define j where "j = nat (53 - B)"
  have pos: "0 < \<bar>k\<bar>" using assms(1) by simp
  have "B \<le> 53" using assms(2) unfolding B_def by (simp add: bitlen_le_iff_power)
  moreover have "1 \<le> B" using pos unfolding B_def by (simp add: bitlen_ge_iff_power)
  ultimately have e: "max (B - 1) (- 1022) - 52 \<le> 0" "- (max (B - 1) (- 1022) - 52) = 53 - B"
    by simp_all
  have fl: "floor_log2 \<bar>rat_of_int k\<bar> = B - 1"
    using floor_log2_of_int [OF pos] by (simp add: B_def)
  have ulp: "(2::rat) powi (max (B - 1) (- 1022) - 52) = 1 / 2 ^ j"
    using powi_two_nonpos [OF e(1)] e(2) by (simp add: j_def)
  have q: "rat_of_int k / (1 / 2 ^ j) = of_int (k * 2 ^ j)" by simp
  have r: "rat_of_int (round_half_even (rat_of_int k / (1 / 2 ^ j))) * (1 / 2 ^ j) = of_int k"
    unfolding q round_half_even_of_int by simp
  have small: "\<not> rat_of_int overflow_bound \<le> \<bar>rat_of_int k\<bar>"
  proof -
    have "\<bar>k\<bar> < overflow_bound" using assms(2) overflow_bound_gt by linarith
    then show ?thesis by (metis of_int_abs of_int_le_iff not_le)
  qed
  show ?thesis
    unfolding to_double_def fl ulp Let_def r using assms(1) small by simp
qed

lemma to_double_pow53: "to_double (2 ^ 53) = Fin (2 ^ 53)" "to_double (- (2 ^ 53)) = Fin (- (2 ^ 53))"
  by code_simp+

lemma to_double_pow53_plus1: "to_double (2 ^ 53 + 1) = Fin (2 ^ 53)"
  by code_simp

text \<open>Known values: the doubles nearest to 0.1 and to 1/3, and two ties above \<open>2 ^ 53\<close>.\<close>

lemma to_double_examples:
  "to_double (1 / 10) = Fin (3602879701896397 / 2 ^ 55)"
  "to_double (1 / 3) = Fin (6004799503160661 / 2 ^ 54)"
  "to_double (2 ^ 53 + 3) = Fin (2 ^ 53 + 4)"
  "to_double (- (2 ^ 53) - 1) = Fin (- (2 ^ 53))"
  by code_simp+

lemma to_double_of_int_exact:
  assumes "\<bar>k\<bar> \<le> 2 ^ 53"
  shows "to_double (of_int k) = Fin (of_int k)"
proof -
  consider "k = 0" | "k \<noteq> 0" "\<bar>k\<bar> < 2 ^ 53" | "k = 2 ^ 53" | "k = - (2 ^ 53)"
    using assms by linarith
  then show ?thesis
  proof cases
    case 1
    then show ?thesis by (simp add: to_double_def)
  next
    case 2
    then show ?thesis by (rule to_double_of_int_small)
  next
    case 3
    then show ?thesis using to_double_pow53(1) by simp
  next
    case 4
    then show ?thesis using to_double_pow53(2) by simp
  qed
qed


lemma round_half_even_small_frac:
  assumes "0 \<le> d" and "d < 1 / 2"
  shows "round_half_even (of_int m + d) = m"
proof -
  have "\<lfloor>rat_of_int m + d\<rfloor> = m" using assms by (simp add: floor_unique)
  then show ?thesis using assms by (simp add: round_half_even_def)
qed

lemma bitlen_big: "2 ^ 53 \<le> x \<Longrightarrow> 54 \<le> bitlen x"
  by (simp add: bitlen_ge_iff_power)

lemma to_double_of_int_big:
  assumes "2 ^ 53 \<le> \<bar>x\<bar>"
  shows "to_double (of_int x) =
     (let U = 2 ^ nat (bitlen \<bar>x\<bar> - 53); R = round_half_even (of_int x / of_int U)
      in if overflow_bound \<le> \<bar>R * U\<bar> then (if 0 < x then PosInf else NegInf)
         else Fin (of_int (R * U)))"
proof -
  define B where "B = bitlen \<bar>x\<bar>"
  define U :: int where "U = 2 ^ nat (B - 53)"
  define R where "R = round_half_even (of_int x / of_int U)"
  have "(0::int) < 2 ^ 53" by simp
  then have pos: "0 < \<bar>x\<bar>" using assms by linarith
  have B: "54 \<le> B" unfolding B_def using assms by (rule bitlen_big)
  have fl: "floor_log2 \<bar>rat_of_int x\<bar> = B - 1"
    using floor_log2_of_int [OF pos] by (simp add: B_def)
  have e: "max (B - 1) (- 1022) - 52 = B - 53" using B by simp
  have ulp: "(2::rat) powi (B - 53) = of_int U"
    unfolding U_def using B by (intro powi_two_nonneg) simp
  have Upos: "0 < U" by (simp add: U_def)
  have "2 ^ nat (B - 1) \<le> \<bar>x\<bar>" using bitlen_bounds [OF pos] by (simp add: B_def)
  moreover have "(2::int) ^ nat (B - 1) = U * 2 ^ 52"
  proof -
    have "nat (B - 1) = nat (B - 53) + 52" using B by simp
    then show ?thesis by (simp add: U_def power_add)
  qed
  ultimately have UleX: "U \<le> \<bar>x\<bar>" using Upos
    by (smt (verit, ccfv_SIG) mult_le_cancel_left1 one_le_numeral one_le_power)
  have Rnz: "R \<noteq> 0"
  proof (cases "0 < x")
    case True
    then have "rat_of_int 1 \<le> of_int x / of_int U"
      using UleX Upos by (simp add: le_divide_eq)
    then have "1 \<le> R" unfolding R_def by (rule round_half_even_ge)
    then show ?thesis by simp
  next
    case False
    then have "U \<le> - x" using UleX by simp
    then have "rat_of_int U \<le> - rat_of_int x" by (metis of_int_le_iff of_int_minus)
    then have "of_int x / of_int U \<le> rat_of_int (- 1)"
      using Upos by (simp add: divide_le_eq)
    then have "R \<le> - 1" unfolding R_def by (rule round_half_even_le)
    then show ?thesis by simp
  qed
  have r: "rat_of_int R * rat_of_int U = of_int (R * U)" by simp
  have ov: "(rat_of_int overflow_bound \<le> \<bar>rat_of_int (R * U)\<bar>) = (overflow_bound \<le> \<bar>R * U\<bar>)"
    by (metis of_int_abs of_int_le_iff)
  have nz: "x \<noteq> 0" "R * U \<noteq> 0" using pos Rnz Upos by simp_all
  show ?thesis
    unfolding to_double_def fl e ulp Let_def B_def [symmetric] U_def [symmetric]
      R_def [symmetric] r ov
    using nz by simp
qed

lemma is_double_big_int:
  assumes "is_double (of_int k)" and "2 ^ 53 \<le> \<bar>k\<bar>"
  shows "2 ^ nat (bitlen \<bar>k\<bar> - 53) dvd k \<and> \<bar>k\<bar> < overflow_bound"
proof -
  define U :: int where "U = 2 ^ nat (bitlen \<bar>k\<bar> - 53)"
  define R where "R = round_half_even (of_int k / of_int U)"
  have eq: "(if overflow_bound \<le> \<bar>R * U\<bar> then (if 0 < k then PosInf else NegInf)
         else Fin (of_int (R * U))) = Fin (rat_of_int k)"
    using assms(1) to_double_of_int_big [OF assms(2)]
    unfolding is_double_def Let_def U_def R_def by simp
  have no: "\<not> overflow_bound \<le> \<bar>R * U\<bar>"
  proof
    assume "overflow_bound \<le> \<bar>R * U\<bar>"
    with eq show False by (cases "0 < k") simp_all
  qed
  with eq have "rat_of_int (R * U) = of_int k" by simp
  then have k: "R * U = k" by (metis of_int_eq_iff)
  then have "U dvd k" by (metis dvd_triv_right)
  moreover have "\<bar>k\<bar> < overflow_bound" using no k by simp
  ultimately show ?thesis unfolding U_def by simp
qed

lemma bitlen_abs_scaled:
  assumes "R \<noteq> 0"
  shows "bitlen \<bar>R * 2 ^ j\<bar> = bitlen \<bar>R\<bar> + int j"
proof -
  have "\<bar>R * 2 ^ j\<bar> = \<bar>R\<bar> * 2 ^ j" by (simp add: abs_mult)
  moreover have "0 < \<bar>R\<bar>" using assms by simp
  ultimately show ?thesis by simp
qed

lemma is_double_scaled:
  assumes R: "\<bar>R\<bar> \<le> 2 ^ 53" and lim: "\<bar>R * 2 ^ j\<bar> < overflow_bound"
  shows "is_double (of_int (R * 2 ^ j))"
proof (cases "\<bar>R * 2 ^ j\<bar> \<le> 2 ^ 53")
  case True
  then show ?thesis unfolding is_double_def by (rule to_double_of_int_exact)
next
  case False
  define y where "y = R * 2 ^ j"
  define U :: int where "U = 2 ^ nat (bitlen \<bar>y\<bar> - 53)"
  have big: "2 ^ 53 \<le> \<bar>y\<bar>" using False by (simp add: y_def)
  have "R \<noteq> 0" using False by auto
  then have By: "bitlen \<bar>y\<bar> = bitlen \<bar>R\<bar> + int j" unfolding y_def by (rule bitlen_abs_scaled)
  have "U dvd y"
  proof (cases "\<bar>R\<bar> < 2 ^ 53")
    case True
    then have "bitlen \<bar>R\<bar> \<le> 53" by (simp add: bitlen_le_iff_power)
    then have "nat (bitlen \<bar>y\<bar> - 53) \<le> j" using By by simp
    then have "U dvd 2 ^ j" unfolding U_def by (rule le_imp_power_dvd)
    then show ?thesis unfolding y_def by (rule dvd_mult)
  next
    case False
    then have Rabs: "\<bar>R\<bar> = 2 ^ 53" using R by simp
    have "bitlen (2 ^ 53) = 54" by code_simp
    then have "bitlen \<bar>R\<bar> = 54" using Rabs by simp
    then have "nat (bitlen \<bar>y\<bar> - 53) = j + 1" using By by simp
    then have U: "U = 2 ^ j * 2" by (simp add: U_def)
    have "even R" using Rabs by (metis even_abs_add_iff even_add even_numeral even_power zero_less_numeral)
    then obtain R' where "R = 2 * R'" by (rule evenE)
    then have "y = U * R'" by (simp add: y_def U)
    then show ?thesis by simp
  qed
  then obtain n where n: "y = U * n" by (rule dvdE)
  have Upos: "0 < U" by (simp add: U_def)
  have "rat_of_int y / of_int U = of_int n" using Upos by (simp add: n)
  then have "round_half_even (of_int y / of_int U) * U = y"
    by (simp add: round_half_even_of_int n)
  moreover have "\<not> overflow_bound \<le> \<bar>y\<bar>" using lim by (simp add: y_def)
  ultimately have "to_double (of_int y) = Fin (of_int y)"
    using to_double_of_int_big [OF big] unfolding Let_def U_def [symmetric] by simp
  then show ?thesis by (simp add: is_double_def y_def)
qed

lemma add_one_big:
  assumes dbl: "is_double (of_int k)" and big: "2 ^ 53 < \<bar>k + 1\<bar>"
  shows "\<exists>r. to_double (of_int k + 1) = Fin (of_int r) \<and> k \<le> r \<and> is_double (of_int r)"
proof -
  define Bx where "Bx = bitlen \<bar>k + 1\<bar>"
  define Bk where "Bk = bitlen \<bar>k\<bar>"
  define U :: int where "U = 2 ^ nat (Bx - 53)"
  define Uk :: int where "Uk = 2 ^ nat (Bk - 53)"
  define R where "R = round_half_even (of_int (k + 1) / of_int U)"
  have bigx: "2 ^ 53 \<le> \<bar>k + 1\<bar>" using big by simp
  have bigk: "2 ^ 53 \<le> \<bar>k\<bar>" using big by linarith
  have Bx: "54 \<le> Bx" unfolding Bx_def using bigx by (rule bitlen_big)
  have Bk: "54 \<le> Bk" unfolding Bk_def using bigk by (rule bitlen_big)
  have "(0::int) < 2 ^ 53" by simp
  then have posk: "0 < \<bar>k\<bar>" and posx: "0 < \<bar>k + 1\<bar>" using bigk bigx by linarith+
  have Upos: "0 < U" by (simp add: U_def)
  from is_double_big_int [OF dbl bigk]
  have Uk_dvd: "Uk dvd k" and klim: "\<bar>k\<bar> < overflow_bound" by (simp_all add: Uk_def Bk_def)
  have "even Uk" unfolding Uk_def using Bk by simp
  then have even_k: "even k" using Uk_dvd by (rule dvd_trans)
  have Bx_le: "Bx \<le> Bk"
  proof (rule ccontr)
    assume "\<not> Bx \<le> Bk"
    then have "Bk + 1 \<le> Bx" by simp
    then have "2 ^ (nat (Bk + 1) - 1) \<le> \<bar>k + 1\<bar>"
      using Bk unfolding Bx_def by (simp add: bitlen_ge_iff_power)
    moreover have "nat (Bk + 1) - 1 = nat Bk" using Bk by simp
    ultimately have lo: "2 ^ nat Bk \<le> \<bar>k + 1\<bar>" by simp
    have hi: "\<bar>k\<bar> < 2 ^ nat Bk" using bitlen_bounds [OF posk] by (simp add: Bk_def)
    from lo hi have "\<bar>k + 1\<bar> = 2 ^ nat Bk" by linarith
    moreover have "even ((2::int) ^ nat Bk)" using Bk by simp
    ultimately have "even \<bar>k + 1\<bar>" by simp
    then show False using even_k by simp
  qed
  have "U dvd Uk" unfolding U_def Uk_def using Bx_le by (intro le_imp_power_dvd) simp
  then have "U dvd k" using Uk_dvd by (rule dvd_trans)
  then obtain m where m: "k = U * m" by (rule dvdE)
  have quot: "rat_of_int (k + 1) / of_int U = of_int m + 1 / of_int U"
    using Upos by (simp add: m add_divide_distrib)
  have "rat_of_int m \<le> of_int m + 1 / of_int U" using Upos by simp
  then have Rge: "m \<le> R" unfolding R_def quot by (rule round_half_even_ge)
  have "1 / rat_of_int U \<le> 1" using Upos by simp
  then have "rat_of_int m + 1 / of_int U \<le> of_int (m + 1)" by simp
  then have Rle: "R \<le> m + 1" unfolding R_def quot by (rule round_half_even_le)
  have ge: "k \<le> R * U" using Rge Upos by (simp add: m mult.commute)
  have le: "R * U \<le> k + U"
  proof -
    have "R * U \<le> (m + 1) * U" using Rle Upos by simp
    then show ?thesis by (simp add: m algebra_simps)
  qed
  have no: "\<not> overflow_bound \<le> \<bar>R * U\<bar>"
  proof (cases "Bx = 54")
    case True
    then have "U = 2" by (simp add: U_def)
    have "\<bar>k + 1\<bar> < 2 ^ nat Bx" using bitlen_bounds [OF posx] by (simp add: Bx_def)
    then have "\<bar>k + 1\<bar> < 2 ^ 54" using True by simp
    then have "\<bar>R * U\<bar> < 2 ^ 54 + 3" using ge le \<open>U = 2\<close> by linarith
    then show ?thesis using overflow_bound_gt(2) by linarith
  next
    case False
    then have "55 \<le> Bx" using Bx by simp
    then have "nat (Bx - 53) = nat (Bx - 55) + 2" by simp
    then have "U = 2 ^ nat (Bx - 55) * 4" by (simp add: U_def power_add)
    moreover have "(1::int) \<le> 2 ^ nat (Bx - 55)" by simp
    ultimately have "4 \<le> U" by linarith
    then have "4 \<le> rat_of_int U" by (metis of_int_le_iff of_int_numeral)
    then have "1 / rat_of_int U < 1 / 2" by (simp add: divide_less_eq)
    moreover have "0 \<le> 1 / rat_of_int U" using Upos by simp
    ultimately have "R = m" unfolding R_def quot by (intro round_half_even_small_frac)
    then have "R * U = k" by (simp add: m)
    then show ?thesis using klim by simp
  qed
  have "\<bar>k + 1\<bar> < 2 ^ nat Bx" using bitlen_bounds [OF posx] by (simp add: Bx_def)
  moreover have "(2::int) ^ nat Bx = U * 2 ^ 53"
  proof -
    have "nat Bx = nat (Bx - 53) + 53" using Bx by simp
    then show ?thesis by (simp add: U_def power_add)
  qed
  ultimately have x_lt: "\<bar>k + 1\<bar> < U * 2 ^ 53" by simp
  then have "\<bar>k\<bar> \<le> U * 2 ^ 53" by linarith
  then have "\<bar>m\<bar> * U \<le> 2 ^ 53 * U" using Upos by (simp add: m abs_mult mult.commute)
  then have m_abs: "\<bar>m\<bar> \<le> 2 ^ 53" using Upos by simp
  have "m \<noteq> 2 ^ 53"
  proof
    assume "m = 2 ^ 53"
    then have "k = U * 2 ^ 53" by (simp add: m)
    moreover have "0 < U * 2 ^ 53" using Upos by simp
    ultimately show False using x_lt by linarith
  qed
  then have "\<bar>R\<bar> \<le> 2 ^ 53" using m_abs Rge Rle by linarith
  moreover have "\<bar>R * 2 ^ nat (Bx - 53)\<bar> < overflow_bound" using no by (simp add: U_def)
  ultimately have "is_double (of_int (R * 2 ^ nat (Bx - 53)))" by (rule is_double_scaled)
  then have dbl_r: "is_double (of_int (R * U))" by (simp add: U_def)
  have "to_double (of_int (k + 1)) = Fin (of_int (R * U))"
    using to_double_of_int_big [OF bigx] no
    unfolding Let_def Bx_def [symmetric] U_def [symmetric] R_def [symmetric] by simp
  then have "to_double (of_int k + 1) = Fin (of_int (R * U))" by simp
  with ge dbl_r show ?thesis by blast
qed

lemma add_one_exact:
  assumes "- (2 ^ 53) \<le> k + 1" and "k + 1 \<le> 2 ^ 53"
  shows "num_add (Fin (of_int k)) (Fin 1) = Fin (of_int (k + 1))"
proof -
  have "\<bar>k + 1\<bar> \<le> 2 ^ 53" using assms by linarith
  then have "to_double (of_int (k + 1)) = Fin (of_int (k + 1))"
    by (rule to_double_of_int_exact)
  then show ?thesis by simp
qed

lemma add_one_integer:
  assumes "is_double (of_int k)"
  shows "\<exists>r. num_add (Fin (of_int k)) (Fin 1) = Fin (of_int r) \<and> k \<le> r \<and> is_double (of_int r)"
proof (cases "2 ^ 53 < \<bar>k + 1\<bar>")
  case True
  with assms show ?thesis using add_one_big by simp
next
  case False
  then have "- (2 ^ 53) \<le> k + 1" "k + 1 \<le> 2 ^ 53" by linarith+
  then have "num_add (Fin (of_int k)) (Fin 1) = Fin (of_int (k + 1))" by (rule add_one_exact)
  moreover have "is_double (of_int (k + 1))"
    unfolding is_double_def using False by (intro to_double_of_int_exact) simp
  ultimately show ?thesis by (intro exI [of _ "k + 1"]) simp
qed

section \<open>Facts about the heap and the reducer\<close>

subsection \<open>Reading in a grown heap, and the branches of the reducer\<close>

lemma get_prop_append:
  "get_prop h v k = Inr x \<Longrightarrow> get_prop (h @ ext) v k = Inr x"
  by (cases v) (auto simp: nth_append split: if_splits)

lemma get_prop_type_default:
  assumes "get_prop h a ''type'' = Inr t" and "t \<noteq> JStr ''INCREASE_COUNT''" and "s \<noteq> JUndefined"
  shows "counterReducer h s a = (Inr s, h)"
  using assms by (simp add: counterReducer_def)

lemma get_prop_append_valid: "valid h v \<Longrightarrow> get_prop (h @ ext) v k = get_prop h v k"
  by (cases v) (auto simp: valid_def nth_append)

lemma plus_one_append_valid: "valid h v \<Longrightarrow> plus_one (h @ ext) v = plus_one h v"
  by (cases v) (auto simp: valid_def plus_one_def nth_append)

lemma counterReducer_seed:
  assumes "get_prop h a ''type'' = Inr t" and "t \<noteq> JStr ''INCREASE_COUNT''"
  shows "counterReducer h JUndefined a =
           (Inr (JRef (length h)), h @ [[(''clicks'', JNum (Fin 0))]])"
  using assms get_prop_append [OF assms(1)]
  by (simp add: counterReducer_def new_object_def)

lemma counterReducer_increase:
  assumes "get_prop h a ''type'' = Inr (JStr ''INCREASE_COUNT'')"
    and "get_prop h s ''clicks'' = Inr c" and "plus_one h c = Inr v"
  shows "counterReducer h s a = (Inr (JRef (length h)), h @ [[(''clicks'', v)]])"
proof -
  have "s \<noteq> JUndefined" using assms(2) by auto
  then show ?thesis using assms by (simp add: counterReducer_def new_object_def)
qed

subsection \<open>Counting up\<close>

lemma reduce_all_append:
  "reduce_all h s (as @ bs) =
     (case reduce_all h s as of
        (Inl e, h') \<Rightarrow> (Inl e, h')
      | (Inr s', h') \<Rightarrow> reduce_all h' s' bs)"
  by (induction as arbitrary: h s) (auto split: prod.splits sum.splits)

lemma reduce_all_increase:
  assumes "get_prop h inc ''type'' = Inr (JStr ''INCREASE_COUNT'')"
    and "get_prop h s ''clicks'' = Inr (JNum (Fin (of_nat i)))"
    and "i + n \<le> 2 ^ 53"
  shows "\<exists>s' h'. reduce_all h s (replicate n inc) = (Inr s', h')
           \<and> get_prop h' s' ''clicks'' = Inr (JNum (Fin (of_nat (i + n))))
           \<and> get_prop h' inc ''type'' = Inr (JStr ''INCREASE_COUNT'')"
  using assms
proof (induction n arbitrary: h s i)
  case 0
  then show ?case by simp
next
  case (Suc n)
  let ?v = "JNum (Fin (of_nat (Suc i)))"
  let ?h = "h @ [[(''clicks'', ?v)]]"
  have "int i + 1 \<le> int (2 ^ 53)" using Suc.prems(3) by linarith
  then have "int i + 1 \<le> 2 ^ 53" by simp
  moreover have "(0::int) \<le> 2 ^ 53" by simp
  then have "- (2 ^ 53) \<le> int i + 1" by linarith
  ultimately have "num_add (Fin (of_int (int i))) (Fin 1) = Fin (of_int (int i + 1))"
    by (intro add_one_exact)
  then have "plus_one h (JNum (Fin (of_nat i))) = Inr ?v"
    by (simp add: plus_one_def add.commute)
  with Suc.prems have step: "counterReducer h s inc = (Inr (JRef (length h)), ?h)"
    by (intro counterReducer_increase)
  have "get_prop ?h inc ''type'' = Inr (JStr ''INCREASE_COUNT'')"
    using Suc.prems(1) by (rule get_prop_append)
  moreover have "get_prop ?h (JRef (length h)) ''clicks'' = Inr ?v"
    by (simp add: get_own_def)
  moreover have "Suc i + n \<le> 2 ^ 53" using Suc.prems(3) by simp
  ultimately obtain s' h' where
    "reduce_all ?h (JRef (length h)) (replicate n inc) = (Inr s', h')"
    "get_prop h' s' ''clicks'' = Inr (JNum (Fin (of_nat (Suc i + n))))"
    "get_prop h' inc ''type'' = Inr (JStr ''INCREASE_COUNT'')"
    using Suc.IH by blast
  then show ?case using step by simp
qed

lemma clicks_after_exact:
  assumes "get_prop h init ''type'' = Inr t" and "t \<noteq> JStr ''INCREASE_COUNT''"
    and "get_prop h inc ''type'' = Inr (JStr ''INCREASE_COUNT'')" and "n \<le> 2 ^ 53"
  shows "clicks_after h init inc n = Inr (JNum (Fin (of_nat n)))"
proof -
  let ?h0 = "h @ [[(''clicks'', JNum (Fin 0))]]"
  have seed: "counterReducer h JUndefined init = (Inr (JRef (length h)), ?h0)"
    using assms(1,2) by (rule counterReducer_seed)
  have "get_prop ?h0 inc ''type'' = Inr (JStr ''INCREASE_COUNT'')"
    using assms(3) by (rule get_prop_append)
  moreover have "get_prop ?h0 (JRef (length h)) ''clicks'' = Inr (JNum (Fin (of_nat 0)))"
    by (simp add: get_own_def)
  moreover have "0 + n \<le> 2 ^ 53" using assms(4) by simp
  ultimately obtain s' h' where
    "reduce_all ?h0 (JRef (length h)) (replicate n inc) = (Inr s', h')"
    "get_prop h' s' ''clicks'' = Inr (JNum (Fin (of_nat (0 + n))))"
    using reduce_all_increase by blast
  then show ?thesis by (simp add: clicks_after_def seed)
qed

lemma clicks_after_saturated:
  assumes "get_prop h init ''type'' = Inr t" and "t \<noteq> JStr ''INCREASE_COUNT''"
    and "get_prop h inc ''type'' = Inr (JStr ''INCREASE_COUNT'')"
  shows "clicks_after h init inc (2 ^ 53 + 1) = Inr (JNum (Fin (2 ^ 53)))"
proof -
  let ?h0 = "h @ [[(''clicks'', JNum (Fin 0))]]"
  let ?n = "2 ^ 53 :: nat"
  have seed: "counterReducer h JUndefined init = (Inr (JRef (length h)), ?h0)"
    using assms(1,2) by (rule counterReducer_seed)
  have "get_prop ?h0 inc ''type'' = Inr (JStr ''INCREASE_COUNT'')"
    using assms(3) by (rule get_prop_append)
  moreover have "get_prop ?h0 (JRef (length h)) ''clicks'' = Inr (JNum (Fin (of_nat 0)))"
    by (simp add: get_own_def)
  moreover have "0 + ?n \<le> 2 ^ 53" by simp
  ultimately obtain s' h' where run:
    "reduce_all ?h0 (JRef (length h)) (replicate ?n inc) = (Inr s', h')"
    "get_prop h' s' ''clicks'' = Inr (JNum (Fin (of_nat (0 + ?n))))"
    "get_prop h' inc ''type'' = Inr (JStr ''INCREASE_COUNT'')"
    using reduce_all_increase by blast
  have clicks: "get_prop h' s' ''clicks'' = Inr (JNum (Fin (2 ^ 53)))"
    using run(2) by simp
  have "plus_one h' (JNum (Fin (2 ^ 53))) = Inr (JNum (Fin (2 ^ 53)))"
    using to_double_pow53_plus1 by (simp add: plus_one_def)
  with run(3) clicks
  have last: "counterReducer h' s' inc =
      (Inr (JRef (length h')), h' @ [[(''clicks'', JNum (Fin (2 ^ 53)))]])"
    by (rule counterReducer_increase)
  have "replicate (Suc ?n) inc = replicate ?n inc @ [inc]"
    by (simp only: replicate_append_same replicate_Suc)
  then have "reduce_all ?h0 (JRef (length h)) (replicate (Suc ?n) inc) =
      (Inr (JRef (length h')), h' @ [[(''clicks'', JNum (Fin (2 ^ 53)))]])"
    by (simp only: reduce_all_append run(1)) (simp add: last)
  then have "clicks_after h init inc (Suc ?n) = Inr (JNum (Fin (2 ^ 53)))"
    unfolding clicks_after_def seed by (simp add: get_own_def)
  then show ?thesis by (simp only: Suc_eq_plus1)
qed

lemma scenario_heap_actions:
  "get_prop scenario_heap (JRef 0) ''type'' = Inr (JStr ''@@INIT'')"
  "get_prop scenario_heap (JRef 1) ''type'' = Inr (JStr ''INCREASE_COUNT'')"
  "get_prop scenario_heap (JRef 2) ''type'' = Inr (JStr ''DECREASE_COUNT'')"
  by (simp_all add: scenario_heap_def get_own_def)

lemma reduce_all_unhandled:
  assumes "s \<noteq> JUndefined"
    and "\<forall>a \<in> set as. \<exists>t. get_prop h a ''type'' = Inr t \<and> t \<noteq> JStr ''INCREASE_COUNT''"
  shows "reduce_all h s as = (Inr s, h)"
  using assms by (induction as) (auto simp: get_prop_type_default)

lemma plus_one_zero: "plus_one h (JNum (Fin 0)) = Inr (JNum (Fin 1))"
  using add_one_exact [of 0] by (simp add: plus_one_def)

subsection \<open>Allocation\<close>

lemma counterReducer_heap_extends: "\<exists>ext. snd (counterReducer h s a) = h @ ext"
  by (simp add: counterReducer_def new_object_def Let_def split: sum.splits prod.splits)

lemma counterReducer_increase_fresh:
  assumes "get_prop h a ''type'' = Inr (JStr ''INCREASE_COUNT'')"
    and "counterReducer h s a = (Inr s', h')"
  shows "\<exists>v. s' = JRef (length h' - 1) \<and> length h < length h'
           \<and> h' ! (length h' - 1) = [(''clicks'', v)]"
proof (cases "s = JUndefined")
  case True
  have "get_prop (h @ [[(''clicks'', JNum (Fin 0))]]) a ''type'' = Inr (JStr ''INCREASE_COUNT'')"
    using assms(1) by (rule get_prop_append)
  then show ?thesis using assms(2) True
    by (auto simp: counterReducer_def new_object_def get_own_def nth_append split: sum.splits)
next
  case False
  then show ?thesis using assms
    by (auto simp: counterReducer_def new_object_def split: sum.splits)
qed

lemma plus_one_addable: "addable c \<Longrightarrow> \<exists>v. plus_one h c = Inr v"
  by (cases c) (simp_all add: plus_one_def addable_def)

lemma plus_one_five: "plus_one h (JNum (Fin 5)) = Inr (JNum (Fin 6))"
  using add_one_exact [of 5] by (simp add: plus_one_def)

lemma extra_heap_increase:
  "counterReducer extra_heap (JRef 3) (JRef 1)
     = (Inr (JRef 4), extra_heap @ [[(''clicks'', JNum (Fin 6))]])"
  by (simp add: counterReducer_def new_object_def extra_heap_def scenario_heap_def
      get_own_def plus_one_five)

lemma extra_heap_facts:
  "get_prop extra_heap (JRef 1) ''type'' = Inr (JStr ''INCREASE_COUNT'')"
  "get_prop extra_heap (JRef 3) ''clicks'' = Inr (JNum (Fin 5))"
  "map_of (extra_heap ! 3) ''user'' = Some (JStr ''ann'')"
  "valid extra_heap (JRef 3)" "valid extra_heap (JRef 1)"
  by (simp_all add: extra_heap_def scenario_heap_def get_own_def valid_def)

subsection \<open>Integer counters\<close>

lemma is_double_one: "is_double 1"
  using to_double_of_int_exact [of 1] by (simp add: is_double_def)

lemma add_one_num:
  assumes "wf_num n" and "is_integer n"
  shows "wf_num (num_add n (Fin 1)) \<and> is_integer (num_add n (Fin 1))
       \<and> num_val n \<le> num_val (num_add n (Fin 1))"
proof (cases n)
  case (Fin q)
  then have "q \<in> \<int>" using assms(2) by simp
  then obtain k where k: "q = of_int k" by (rule Ints_cases)
  then have "is_double (of_int k)" using assms(1) Fin by simp
  then obtain r where "num_add (Fin (of_int k)) (Fin 1) = Fin (of_int r)" "k \<le> r"
    "is_double (of_int r)" using add_one_integer by blast
  then show ?thesis by (simp add: Fin k)
next
  case NegZero
  then show ?thesis by (simp add: is_double_one)
qed (use assms in simp_all)

lemma add_one_num_exact:
  assumes "is_integer n" and "- (2 ^ 53) \<le> num_val n" and "num_val n < 2 ^ 53"
  shows "num_val (num_add n (Fin 1)) = num_val n + 1"
proof (cases n)
  case (Fin q)
  then have "q \<in> \<int>" using assms(1) by simp
  then obtain k where k: "q = of_int k" by (rule Ints_cases)
  have "rat_of_int (- (2 ^ 53)) \<le> of_int k" using assms(2) Fin k by simp
  then have lo: "- (2 ^ 53) \<le> k" by (simp only: of_int_le_iff)
  have "rat_of_int k < of_int (2 ^ 53)" using assms(3) Fin k by simp
  then have hi: "k < 2 ^ 53" by (simp only: of_int_less_iff)
  have "num_add (Fin (of_int k)) (Fin 1) = Fin (of_int (k + 1))"
    using lo hi by (intro add_one_exact) linarith+
  then show ?thesis by (simp add: Fin k)
qed (use assms in simp_all)

lemma counterReducer_integer_clicks:
  assumes c: "get_prop h s ''clicks'' = Inr (JNum n)" and wf: "wf_num n" and int: "is_integer n"
  shows "case counterReducer h s a of
           (Inl e, h') \<Rightarrow> get_prop h a ''type'' = Inl e \<and> h' = h
         | (Inr s', h') \<Rightarrow>
             (if get_prop h a ''type'' = Inr (JStr ''INCREASE_COUNT'')
              then get_prop h' s' ''clicks'' = Inr (JNum (num_add n (Fin 1)))
              else s' = s \<and> h' = h)"
proof -
  have s: "s \<noteq> JUndefined" using c by auto
  show ?thesis
  proof (cases "get_prop h a ''type''")
    case (Inl e)
    then show ?thesis using s by (simp add: counterReducer_def)
  next
    case (Inr t)
    show ?thesis
    proof (cases "t = JStr ''INCREASE_COUNT''")
      case True
      have "plus_one h (JNum n) = Inr (JNum (num_add n (Fin 1)))" by (simp add: plus_one_def)
      with Inr True c have "counterReducer h s a =
          (Inr (JRef (length h)), h @ [[(''clicks'', JNum (num_add n (Fin 1)))]])"
        by (intro counterReducer_increase) simp_all
      then show ?thesis using Inr True by (simp add: get_own_def)
    next
      case False
      with Inr s show ?thesis by (simp add: get_prop_type_default)
    qed
  qed
qed

lemma is_double_zero: "is_double 0"
  by (simp add: is_double_def to_double_def)

lemma counterReducer_preserves_nonneg:
  assumes "clicks_nonneg_integer h s"
  shows "case counterReducer h s a of
           (Inl e, h') \<Rightarrow> get_prop h a ''type'' = Inl e
         | (Inr s', h') \<Rightarrow> clicks_nonneg_integer h' s'"
proof -
  from assms obtain n where c: "get_prop h s ''clicks'' = Inr (JNum n)"
    and n: "wf_num n" "is_integer n" "0 \<le> num_val n"
    by (auto simp: clicks_nonneg_integer_def nonneg_integer_def split: sum.splits jsval.splits)
  note step = counterReducer_integer_clicks [OF c n(1,2), of a]
  note add = add_one_num [OF n(1,2)]
  show ?thesis
  proof (cases "counterReducer h s a")
    case (Pair r h')
    show ?thesis
    proof (cases r)
      case (Inl e)
      then show ?thesis using step Pair by simp
    next
      case (Inr s')
      show ?thesis
      proof (cases "get_prop h a ''type'' = Inr (JStr ''INCREASE_COUNT'')")
        case True
        then have "get_prop h' s' ''clicks'' = Inr (JNum (num_add n (Fin 1)))"
          using step Pair Inr by simp
        moreover have "0 \<le> num_val (num_add n (Fin 1))" using add n(3) by linarith
        ultimately show ?thesis using Pair Inr add
          by (simp add: clicks_nonneg_integer_def nonneg_integer_def)
      next
        case False
        then have "s' = s \<and> h' = h" using step Pair Inr by simp
        then show ?thesis using Pair Inr assms by simp
      qed
    qed
  qed
qed

lemma reduce_all_preserves_nonneg:
  assumes "clicks_nonneg_integer h s" and "reduce_all h s as = (Inr s', h')"
  shows "clicks_nonneg_integer h' s'"
  using assms
proof (induction as arbitrary: h s)
  case Nil
  then show ?case by simp
next
  case (Cons a as)
  obtain r h1 where run: "counterReducer h s a = (r, h1)" by (cases "counterReducer h s a")
  show ?case
  proof (cases r)
    case (Inl e)
    then show ?thesis using Cons.prems(2) run by simp
  next
    case (Inr s1)
    then have "clicks_nonneg_integer h1 s1"
      using counterReducer_preserves_nonneg [OF Cons.prems(1), of a] run by simp
    moreover have "reduce_all h1 s1 as = (Inr s', h')" using Cons.prems(2) run Inr by simp
    ultimately show ?thesis by (rule Cons.IH)
  qed
qed

lemma default_state_nonneg:
  "clicks_nonneg_integer (h @ [[(''clicks'', JNum (Fin 0))]]) (JRef (length h))"
  by (simp add: clicks_nonneg_integer_def nonneg_integer_def get_own_def is_double_zero)

lemma seed_nonneg:
  assumes "counterReducer h JUndefined a = (Inr s0, h0)"
  shows "clicks_nonneg_integer h0 s0"
proof -
  let ?h1 = "h @ [[(''clicks'', JNum (Fin 0))]]"
  have split: "counterReducer h JUndefined a = counterReducer ?h1 (JRef (length h)) a"
    by (simp add: counterReducer_def new_object_def)
  show ?thesis
    using counterReducer_preserves_nonneg [OF default_state_nonneg, of h a] assms
    unfolding split [symmetric] by simp
qed

lemma extra_heap_nonneg: "clicks_nonneg_integer extra_heap (JRef 3)"
  using to_double_of_int_exact [of 5]
  by (simp add: clicks_nonneg_integer_def nonneg_integer_def extra_heap_def scenario_heap_def
      get_own_def is_double_def)

lemma scenario_run:
  "counterReducer scenario_heap JUndefined (JRef 0)
     = (Inr (JRef 3), scenario_heap @ [[(''clicks'', JNum (Fin 0))]])"
  "reduce_all (scenario_heap @ [[(''clicks'', JNum (Fin 0))]]) (JRef 3) [JRef 1, JRef 2]
     = (Inr (JRef 4),
        scenario_heap @ [[(''clicks'', JNum (Fin 0))]] @ [[(''clicks'', JNum (Fin 1))]])"
  by (simp_all add: counterReducer_def new_object_def scenario_heap_def get_own_def plus_one_zero)

lemma saturated_heap_facts:
  "get_prop saturated_heap (JRef 1) ''type'' = Inr (JStr ''INCREASE_COUNT'')"
  "get_prop saturated_heap (JRef 3) ''clicks'' = Inr (JNum (Fin (2 ^ 53)))"
  by (simp_all add: saturated_heap_def scenario_heap_def get_own_def)

lemma integer_value_pow53: "integer_value (JNum (Fin (2 ^ 53)))"
  using to_double_pow53(1) by (simp add: integer_value_def is_double_def)

lemma integer_value_five: "integer_value (JNum (Fin 5))"
  using to_double_of_int_exact [of 5] by (simp add: integer_value_def is_double_def)

lemma saturated_heap_increase:
  "counterReducer saturated_heap (JRef 3) (JRef 1)
     = (Inr (JRef 4), saturated_heap @ [[(''clicks'', JNum (Fin (2 ^ 53)))]])"
proof -
  have "plus_one saturated_heap (JNum (Fin (2 ^ 53))) = Inr (JNum (Fin (2 ^ 53)))"
    using to_double_pow53_plus1 by (simp add: plus_one_def)
  then have "counterReducer saturated_heap (JRef 3) (JRef 1)
     = (Inr (JRef (length saturated_heap)),
        saturated_heap @ [[(''clicks'', JNum (Fin (2 ^ 53)))]])"
    by (rule counterReducer_increase [OF saturated_heap_facts])
  then show ?thesis by (simp add: saturated_heap_def scenario_heap_def)
qed

subsection \<open>Exceptions\<close>

lemma get_prop_total: "valid h a \<Longrightarrow> a \<noteq> JUndefined \<Longrightarrow> a \<noteq> JNull \<Longrightarrow> \<exists>t. get_prop h a k = Inr t"
  by (cases a) (simp_all add: valid_def)

lemma counterReducer_action_error:
  "a = JUndefined \<or> a = JNull \<Longrightarrow> fst (counterReducer h s a) = Inl TypeError"
  by (auto simp: counterReducer_def new_object_def)

lemma counterReducer_null_state:
  assumes "get_prop h a ''type'' = Inr (JStr ''INCREASE_COUNT'')"
  shows "counterReducer h JNull a = (Inl TypeError, h)"
  using assms by (simp add: counterReducer_def)

lemma counterReducer_returns:
  assumes "get_prop h a ''type'' = Inr t"
    and "t \<noteq> JStr ''INCREASE_COUNT'' \<or> s = JUndefined
         \<or> (\<exists>c. get_prop h s ''clicks'' = Inr c \<and> addable c)"
  shows "\<exists>s'. fst (counterReducer h s a) = Inr s'"
proof (cases "t = JStr ''INCREASE_COUNT''")
  case False
  show ?thesis
  proof (cases "s = JUndefined")
    case True
    then show ?thesis using counterReducer_seed [OF assms(1) False] by simp
  next
    case False
    then show ?thesis using get_prop_type_default [OF assms(1) \<open>t \<noteq> JStr ''INCREASE_COUNT''\<close>]
      by simp
  qed
next
  case True
  show ?thesis
  proof (cases "s = JUndefined")
    case undef: True
    let ?h1 = "h @ [[(''clicks'', JNum (Fin 0))]]"
    have "get_prop ?h1 a ''type'' = Inr (JStr ''INCREASE_COUNT'')"
      using assms(1) True by (simp add: get_prop_append)
    moreover have "get_prop ?h1 (JRef (length h)) ''clicks'' = Inr (JNum (Fin 0))"
      by (simp add: get_own_def)
    ultimately have "counterReducer ?h1 (JRef (length h)) a =
        (Inr (JRef (length ?h1)), ?h1 @ [[(''clicks'', JNum (Fin 1))]])"
      using plus_one_zero by (rule counterReducer_increase)
    moreover have "counterReducer h JUndefined a = counterReducer ?h1 (JRef (length h)) a"
      by (simp add: counterReducer_def new_object_def)
    ultimately show ?thesis using undef by simp
  next
    case False
    then obtain c where c: "get_prop h s ''clicks'' = Inr c" "addable c"
      using assms(2) True by blast
    then obtain v where "plus_one h c = Inr v" using plus_one_addable by blast
    then show ?thesis using counterReducer_increase [OF assms(1) [unfolded True] c(1)] by simp
  qed
qed

lemma scenario_heap_valid: "valid scenario_heap (JRef 1)" "valid scenario_heap (JRef 0)"
  by (simp_all add: valid_def scenario_heap_def)

lemma counterReducer_plus_one_throws:
  assumes "get_prop h a ''type'' = Inr (JStr ''INCREASE_COUNT'')"
    and "get_prop h s ''clicks'' = Inr c" and "plus_one h c = Inl e"
  shows "counterReducer h s a = (Inl e, h)"
proof -
  have "s \<noteq> JUndefined" using assms(2) by auto
  then show ?thesis using assms by (simp add: counterReducer_def)
qed

lemma bigint_heap_facts:
  "get_prop bigint_heap (JRef 1) ''type'' = Inr (JStr ''INCREASE_COUNT'')"
  "get_prop bigint_heap (JRef 3) ''clicks'' = Inr (JBigInt 1)"
  by (simp_all add: bigint_heap_def scenario_heap_def get_own_def)

subsection \<open>Two invocations\<close>

lemma wf_heap_get_prop:
  assumes "wf_heap h" and "get_prop h s k = Inr c"
  shows "valid h c"
proof (cases s)
  case (JRef b)
  then have b: "b < length h" and c: "c = get_own (h ! b) k"
    using assms(2) by (auto split: if_splits)
  show ?thesis
  proof (cases "map_of (h ! b) k")
    case None
    then show ?thesis by (simp add: c get_own_def valid_def)
  next
    case (Some v)
    then have "(k, v) \<in> set (h ! b)" by (rule map_of_SomeD)
    moreover have "h ! b \<in> set h" using b by simp
    ultimately have "valid h v" using assms(1) unfolding wf_heap_def by fastforce
    then show ?thesis by (simp add: c get_own_def Some)
  qed
qed (use assms(2) in \<open>auto simp: valid_def\<close>)

lemma observe_append: "valid h v \<Longrightarrow> observe (h @ ext) (Inr v) = observe h (Inr v)"
  by (cases v) (auto simp: observe_def valid_def nth_append)

lemma counterReducer_observe_defined:
  assumes "wf_heap h" and "s \<noteq> JUndefined" and "valid h s" and "valid h a"
  shows "observe (snd (counterReducer (h @ ext) s a)) (fst (counterReducer (h @ ext) s a))
       = observe (snd (counterReducer h s a)) (fst (counterReducer h s a))"
proof (cases "get_prop h a ''type''")
  case (Inl e)
  then have "get_prop (h @ ext) a ''type'' = Inl e" using assms(4) by (simp add: get_prop_append_valid)
  then show ?thesis using Inl assms(2) by (simp add: counterReducer_def observe_def)
next
  case (Inr t)
  then have t: "get_prop (h @ ext) a ''type'' = Inr t" by (rule get_prop_append)
  show ?thesis
  proof (cases "t = JStr ''INCREASE_COUNT''")
    case False
    then show ?thesis
      using get_prop_type_default [OF Inr False assms(2)] get_prop_type_default [OF t False assms(2)]
      by (simp add: observe_append [OF assms(3)])
  next
    case True
    show ?thesis
    proof (cases "get_prop h s ''clicks''")
      case (Inl e)
      then have "get_prop (h @ ext) s ''clicks'' = Inl e"
        using assms(3) by (simp add: get_prop_append_valid)
      then show ?thesis using Inl Inr t True assms(2) by (simp add: counterReducer_def observe_def)
    next
      case c: (Inr c)
      then have c': "get_prop (h @ ext) s ''clicks'' = Inr c" by (rule get_prop_append)
      have "valid h c" using assms(1) c by (rule wf_heap_get_prop)
      then have p: "plus_one (h @ ext) c = plus_one h c" by (rule plus_one_append_valid)
      show ?thesis
      proof (cases "plus_one h c")
        case (Inl e)
        then show ?thesis using p c c' Inr t True assms(2)
          by (simp add: counterReducer_def observe_def)
      next
        case v: (Inr v)
        then have "plus_one (h @ ext) c = Inr v" using p by simp
        then show ?thesis
          using counterReducer_increase [OF Inr [unfolded True] c v]
            counterReducer_increase [OF t [unfolded True] c']
          by (simp add: observe_def nth_append)
      qed
    qed
  qed
qed

lemma counterReducer_observe_undefined:
  assumes "wf_heap h" and "valid h a"
  shows "observe (snd (counterReducer (h @ ext) JUndefined a))
           (fst (counterReducer (h @ ext) JUndefined a))
       = observe (snd (counterReducer h JUndefined a)) (fst (counterReducer h JUndefined a))"
proof -
  let ?d = "[(''clicks'', JNum (Fin 0))]"
  have fresh: "get_prop (h @ [?d]) (JRef (length h)) ''clicks'' = Inr (JNum (Fin 0))"
    "get_prop ((h @ ext) @ [?d]) (JRef (length (h @ ext))) ''clicks'' = Inr (JNum (Fin 0))"
    by (simp_all add: get_own_def nth_append)
  show ?thesis
  proof (cases "get_prop h a ''type''")
    case (Inl e)
    then have "get_prop (h @ [?d]) a ''type'' = Inl e" "get_prop ((h @ ext) @ [?d]) a ''type'' = Inl e"
      using assms(2) get_prop_append_valid [OF assms(2), of "ext @ [?d]"]
      by (simp_all add: get_prop_append_valid)
    then show ?thesis by (simp add: counterReducer_def new_object_def observe_def)
  next
    case (Inr t)
    then have t: "get_prop (h @ ext) a ''type'' = Inr t" by (rule get_prop_append)
    show ?thesis
    proof (cases "t = JStr ''INCREASE_COUNT''")
      case False
      then show ?thesis
        using counterReducer_seed [OF Inr False] counterReducer_seed [OF t False]
        by (simp add: observe_def nth_append)
    next
      case True
      have t1: "get_prop (h @ [?d]) a ''type'' = Inr (JStr ''INCREASE_COUNT'')"
        using Inr True by (simp add: get_prop_append)
      have t2: "get_prop ((h @ ext) @ [?d]) a ''type'' = Inr (JStr ''INCREASE_COUNT'')"
        using t True by (simp only: get_prop_append)
      have eq1: "counterReducer h JUndefined a = counterReducer (h @ [?d]) (JRef (length h)) a"
        by (simp add: counterReducer_def new_object_def)
      have eq2: "counterReducer (h @ ext) JUndefined a
           = counterReducer ((h @ ext) @ [?d]) (JRef (length (h @ ext))) a"
        by (simp add: counterReducer_def new_object_def)
      show ?thesis
        unfolding eq1 eq2
          counterReducer_increase [OF t1 fresh(1) plus_one_zero]
          counterReducer_increase [OF t2 fresh(2) plus_one_zero]
        by (simp add: observe_def nth_append)
    qed
  qed
qed

lemma extra_heap_wf: "wf_heap extra_heap"
  by (simp add: wf_heap_def extra_heap_def scenario_heap_def valid_def)

lemma extra_heap_increase_later:
  "counterReducer (extra_heap @ [[(''clicks'', JNum (Fin 6))]]) (JRef 3) (JRef 1)
     = (Inr (JRef 5), extra_heap @ [[(''clicks'', JNum (Fin 6))]] @ [[(''clicks'', JNum (Fin 6))]])"
  by (simp add: counterReducer_def new_object_def extra_heap_def scenario_heap_def
      get_own_def plus_one_five)

section \<open>The claims\<close>

subsection \<open>C1\<close>

text \<open>
  C1 (as amended).  Seed the state with \<open>counterReducer(undefined, init)\<close> for an action
  \<open>init\<close> whose \<open>type\<close> is not \<open>"INCREASE_COUNT"\<close>: its \<open>clicks\<close> is \<open>0\<close>.  After reducing
  \<open>n\<close> times with an action whose \<open>type\<close> is \<open>"INCREASE_COUNT"\<close>, the \<open>clicks\<close> of the state
  is the initial value plus \<open>n\<close>, for every \<open>n\<close> up to \<open>2 ^ 53\<close>.
\<close>

theorem increase_count_n_times:
  assumes "get_prop h init ''type'' = Inr t" and "t \<noteq> JStr ''INCREASE_COUNT''"
    and "get_prop h inc ''type'' = Inr (JStr ''INCREASE_COUNT'')" and "n \<le> 2 ^ 53"
  shows "clicks_after h init inc 0 = Inr (JNum (Fin 0))
       \<and> clicks_after h init inc n = Inr (JNum (Fin (0 + of_nat n)))"
  using clicks_after_exact [OF assms(1,2,3), of 0] clicks_after_exact [OF assms] by simp

theorem increase_count_n_times_witness:
  "get_prop scenario_heap (JRef 0) ''type'' = Inr (JStr ''@@INIT'')
   \<and> JStr ''@@INIT'' \<noteq> JStr ''INCREASE_COUNT''
   \<and> get_prop scenario_heap (JRef 1) ''type'' = Inr (JStr ''INCREASE_COUNT'')
   \<and> (3::nat) \<le> 2 ^ 53
   \<and> clicks_after scenario_heap (JRef 0) (JRef 1) 0 = Inr (JNum (Fin 0))
   \<and> clicks_after scenario_heap (JRef 0) (JRef 1) 3 = Inr (JNum (Fin (0 + of_nat 3)))"
  using increase_count_n_times [OF scenario_heap_actions(1) _ scenario_heap_actions(2), of 3]
    scenario_heap_actions
  by simp

text \<open>
  C1 as stated, for every natural number, fails: a Number is a double, \<open>2 ^ 53 + 1\<close> is
  not one, and the sum \<open>2 ^ 53 + 1\<close> rounds back to \<open>2 ^ 53\<close>.  After \<open>2 ^ 53 + 1\<close>
  increases the counter still reads \<open>2 ^ 53\<close>.
\<close>

theorem increase_count_n_times_counterexample:
  "clicks_after scenario_heap (JRef 0) (JRef 1) (2 ^ 53 + 1) = Inr (JNum (Fin (2 ^ 53)))
   \<and> clicks_after scenario_heap (JRef 0) (JRef 1) (2 ^ 53 + 1)
       \<noteq> Inr (JNum (Fin (0 + of_nat (2 ^ 53 + 1))))"
proof -
  have "clicks_after scenario_heap (JRef 0) (JRef 1) (2 ^ 53 + 1) = Inr (JNum (Fin (2 ^ 53)))"
    by (rule clicks_after_saturated [OF scenario_heap_actions(1) _ scenario_heap_actions(2)]) simp
  then show ?thesis by simp
qed

subsection \<open>C2\<close>

text \<open>
  C2 (as amended).  For every state \<open>s\<close> other than \<open>undefined\<close> and every action whose
  \<open>type\<close> can be read and is not the string \<open>"INCREASE_COUNT"\<close> (a missing \<open>type\<close> reads as
  \<open>undefined\<close>), \<open>counterReducer(s, a)\<close> returns \<open>s\<close> itself and allocates nothing; so does
  any sequence of such actions.
\<close>

theorem identity_on_unhandled:
  assumes "s \<noteq> JUndefined"
    and "get_prop h a ''type'' = Inr t" and "t \<noteq> JStr ''INCREASE_COUNT''"
    and "\<forall>b \<in> set bs. \<exists>u. get_prop h b ''type'' = Inr u \<and> u \<noteq> JStr ''INCREASE_COUNT''"
  shows "counterReducer h s a = (Inr s, h) \<and> reduce_all h s bs = (Inr s, h)"
  using assms get_prop_type_default reduce_all_unhandled by blast

theorem identity_on_unhandled_witness:
  "JNum (Fin 7) \<noteq> JUndefined
   \<and> get_prop scenario_heap (JBool True) ''type'' = Inr JUndefined
   \<and> JUndefined \<noteq> JStr ''INCREASE_COUNT''
   \<and> get_prop scenario_heap (JRef 0) ''type'' = Inr (JStr ''@@INIT'')
   \<and> get_prop scenario_heap (JRef 2) ''type'' = Inr (JStr ''DECREASE_COUNT'')
   \<and> counterReducer scenario_heap (JNum (Fin 7)) (JBool True) = (Inr (JNum (Fin 7)), scenario_heap)
   \<and> reduce_all scenario_heap (JNum (Fin 7)) [JRef 0, JRef 2] = (Inr (JNum (Fin 7)), scenario_heap)"
proof -
  have 1: "JNum (Fin 7) \<noteq> JUndefined" by simp
  have 2: "get_prop scenario_heap (JBool True) ''type'' = Inr JUndefined" by simp
  have 3: "JUndefined \<noteq> JStr ''INCREASE_COUNT''" by simp
  have 4: "\<forall>b \<in> set [JRef 0, JRef 2].
         \<exists>u. get_prop scenario_heap b ''type'' = Inr u \<and> u \<noteq> JStr ''INCREASE_COUNT''"
    using scenario_heap_actions by simp
  note th = identity_on_unhandled [OF 1 2 3 4]
  from 1 2 3 scenario_heap_actions(1,3) th [THEN conjunct1] th [THEN conjunct2]
  show ?thesis by (intro conjI) assumption+
qed

text \<open>
  C2 as stated, for every state, fails at the state \<open>undefined\<close>: the default parameter
  replaces it, and the unhandled action \<open>{type: "DECREASE_COUNT"}\<close> returns the new
  record \<open>{clicks: 0}\<close>, not \<open>undefined\<close>.
\<close>

theorem identity_on_unhandled_counterexample:
  "get_prop scenario_heap (JRef 2) ''type'' = Inr (JStr ''DECREASE_COUNT'')
   \<and> counterReducer scenario_heap JUndefined (JRef 2)
       = (Inr (JRef 3), scenario_heap @ [[(''clicks'', JNum (Fin 0))]])
   \<and> fst (counterReducer scenario_heap JUndefined (JRef 2)) \<noteq> Inr JUndefined"
proof -
  have "counterReducer scenario_heap JUndefined (JRef 2)
       = (Inr (JRef (length scenario_heap)), scenario_heap @ [[(''clicks'', JNum (Fin 0))]])"
    by (rule counterReducer_seed [OF scenario_heap_actions(3)]) simp
  then show ?thesis using scenario_heap_actions(3) by (simp add: scenario_heap_def)
qed

subsection \<open>C3\<close>

text \<open>
  C3.  With the state \<open>undefined\<close> and an action whose \<open>type\<close> is not \<open>"INCREASE_COUNT"\<close>,
  \<open>counterReducer\<close> returns a new record \<open>{clicks: 0}\<close>: the state a store is seeded with has
  \<open>clicks\<close> equal to \<open>0\<close>.
\<close>

theorem seed_state_clicks_zero:
  assumes "get_prop h a ''type'' = Inr t" and "t \<noteq> JStr ''INCREASE_COUNT''"
  shows "\<exists>s0 h0. counterReducer h JUndefined a = (Inr s0, h0)
           \<and> observe h0 (Inr s0) = Inr (Inr [(''clicks'', JNum (Fin 0))])
           \<and> get_prop h0 s0 ''clicks'' = Inr (JNum (Fin 0))"
  using counterReducer_seed [OF assms] by (simp add: observe_def get_own_def)

theorem seed_state_clicks_zero_witness:
  "get_prop scenario_heap (JRef 0) ''type'' = Inr (JStr ''@@INIT'')
   \<and> JStr ''@@INIT'' \<noteq> JStr ''INCREASE_COUNT''
   \<and> (\<exists>s0 h0. counterReducer scenario_heap JUndefined (JRef 0) = (Inr s0, h0)
           \<and> observe h0 (Inr s0) = Inr (Inr [(''clicks'', JNum (Fin 0))])
           \<and> get_prop h0 s0 ''clicks'' = Inr (JNum (Fin 0)))"
proof -
  have 1: "get_prop scenario_heap (JRef 0) ''type'' = Inr (JStr ''@@INIT'')"
    by (rule scenario_heap_actions)
  have 2: "JStr ''@@INIT'' \<noteq> JStr ''INCREASE_COUNT''" by simp
  show ?thesis using seed_state_clicks_zero [OF 1 2] 1 2 by blast
qed

subsection \<open>C4\<close>

text \<open>
  C4.  The scenario: from the seed state the reducer yields \<open>{clicks: 0}\<close>; one
  \<open>{type: "INCREASE_COUNT"}\<close> yields \<open>{clicks: 1}\<close>; the unhandled
  \<open>{type: "DECREASE_COUNT"}\<close> then returns the same state, still \<open>{clicks: 1}\<close>.
\<close>

theorem counter_scenario:
  "counterReducer scenario_heap JUndefined (JRef 0)
     = (Inr (JRef 3), scenario_heap @ [[(''clicks'', JNum (Fin 0))]])
   \<and> counterReducer (scenario_heap @ [[(''clicks'', JNum (Fin 0))]]) (JRef 3) (JRef 1)
     = (Inr (JRef 4),
        scenario_heap @ [[(''clicks'', JNum (Fin 0))]] @ [[(''clicks'', JNum (Fin 1))]])
   \<and> counterReducer
        (scenario_heap @ [[(''clicks'', JNum (Fin 0))]] @ [[(''clicks'', JNum (Fin 1))]])
        (JRef 4) (JRef 2)
     = (Inr (JRef 4),
        scenario_heap @ [[(''clicks'', JNum (Fin 0))]] @ [[(''clicks'', JNum (Fin 1))]])
   \<and> reduce_all (scenario_heap @ [[(''clicks'', JNum (Fin 0))]]) (JRef 3) [JRef 1, JRef 2]
     = (Inr (JRef 4),
        scenario_heap @ [[(''clicks'', JNum (Fin 0))]] @ [[(''clicks'', JNum (Fin 1))]])"
  by (simp add: counterReducer_def new_object_def scenario_heap_def get_own_def plus_one_zero)

subsection \<open>C5\<close>

text \<open>
  C5.  "\<open>clicks\<close> is a non-negative integer" is preserved by every reducer step: from a
  state whose \<open>clicks\<close> is a non-negative integer, every call either throws while reading
  \<open>action.type\<close> (the action is \<open>null\<close> or \<open>undefined\<close>), which yields no state, or returns a
  state whose \<open>clicks\<close> is a non-negative integer.  Hence every state reached from the seed
  state by any list of actions satisfies it.
\<close>

theorem clicks_nonneg_integer_invariant:
  "(clicks_nonneg_integer h s \<longrightarrow>
      (case counterReducer h s a of
         (Inl e, h') \<Rightarrow> get_prop h a ''type'' = Inl e
       | (Inr s', h') \<Rightarrow> clicks_nonneg_integer h' s'))
   \<and> (\<forall>s0 h0 s' h'. counterReducer h JUndefined a0 = (Inr s0, h0) \<longrightarrow>
          reduce_all h0 s0 as = (Inr s', h') \<longrightarrow> clicks_nonneg_integer h' s')"
proof (intro conjI impI allI)
  assume "clicks_nonneg_integer h s"
  then show "case counterReducer h s a of
         (Inl e, h') \<Rightarrow> get_prop h a ''type'' = Inl e
       | (Inr s', h') \<Rightarrow> clicks_nonneg_integer h' s'"
    by (rule counterReducer_preserves_nonneg)
next
  fix s0 h0 s' h'
  assume "counterReducer h JUndefined a0 = (Inr s0, h0)"
  then have "clicks_nonneg_integer h0 s0" by (rule seed_nonneg)
  moreover assume "reduce_all h0 s0 as = (Inr s', h')"
  ultimately show "clicks_nonneg_integer h' s'" by (rule reduce_all_preserves_nonneg)
qed

theorem clicks_nonneg_integer_invariant_witness:
  "clicks_nonneg_integer extra_heap (JRef 3)
   \<and> counterReducer extra_heap (JRef 3) (JRef 1)
       = (Inr (JRef 4), extra_heap @ [[(''clicks'', JNum (Fin 6))]])
   \<and> clicks_nonneg_integer (extra_heap @ [[(''clicks'', JNum (Fin 6))]]) (JRef 4)
   \<and> counterReducer scenario_heap JUndefined (JRef 0)
       = (Inr (JRef 3), scenario_heap @ [[(''clicks'', JNum (Fin 0))]])
   \<and> reduce_all (scenario_heap @ [[(''clicks'', JNum (Fin 0))]]) (JRef 3) [JRef 1, JRef 2]
       = (Inr (JRef 4),
          scenario_heap @ [[(''clicks'', JNum (Fin 0))]] @ [[(''clicks'', JNum (Fin 1))]])
   \<and> clicks_nonneg_integer
        (scenario_heap @ [[(''clicks'', JNum (Fin 0))]] @ [[(''clicks'', JNum (Fin 1))]]) (JRef 4)"
proof -
  note a = clicks_nonneg_integer_invariant [of extra_heap "JRef 3" "JRef 1", THEN conjunct1,
      rule_format, OF extra_heap_nonneg, unfolded extra_heap_increase prod.case sum.case]
  note b = clicks_nonneg_integer_invariant [of scenario_heap _ _ "JRef 0" "[JRef 1, JRef 2]",
      THEN conjunct2, rule_format, OF scenario_run]
  from extra_heap_nonneg extra_heap_increase a scenario_run b
  show ?thesis by (intro conjI) assumption+
qed

subsection \<open>C6\<close>

text \<open>
  C6.  \<open>counterReducer\<close> never writes to an object that exists when it is called: for
  every state and every action, whether the call returns or throws, every object of the
  heap before the call is unchanged after it, so every property of the state reads as
  before.  On the \<open>"INCREASE_COUNT"\<close> branch the value returned is a reference to a record
  allocated by the call, at an address that was not in use before.
\<close>

theorem never_mutates_state:
  assumes "counterReducer h s a = (r, h')"
  shows "take (length h) h' = h
       \<and> (valid h s \<longrightarrow> (\<forall>k. get_prop h' s k = get_prop h s k))
       \<and> (get_prop h a ''type'' = Inr (JStr ''INCREASE_COUNT'') \<longrightarrow>
            (\<forall>s'. r = Inr s' \<longrightarrow> (\<exists>b. s' = JRef b \<and> length h \<le> b \<and> b < length h')))"
proof -
  obtain ext where ext: "h' = h @ ext"
    using counterReducer_heap_extends [of h s a] assms by auto
  have 1: "take (length h) h' = h" by (simp add: ext)
  have 2: "valid h s \<longrightarrow> (\<forall>k. get_prop h' s k = get_prop h s k)"
    by (simp add: ext get_prop_append_valid)
  have 3: "get_prop h a ''type'' = Inr (JStr ''INCREASE_COUNT'') \<longrightarrow>
            (\<forall>s'. r = Inr s' \<longrightarrow> (\<exists>b. s' = JRef b \<and> length h \<le> b \<and> b < length h'))"
  proof (intro impI allI)
    fix s'
    assume t: "get_prop h a ''type'' = Inr (JStr ''INCREASE_COUNT'')" and r: "r = Inr s'"
    from counterReducer_increase_fresh [OF t] assms r
    have "s' = JRef (length h' - 1)" "length h < length h'" by auto
    then show "\<exists>b. s' = JRef b \<and> length h \<le> b \<and> b < length h'" by auto
  qed
  from 1 2 3 show ?thesis by blast
qed

theorem never_mutates_state_witness:
  "counterReducer extra_heap (JRef 3) (JRef 1)
     = (Inr (JRef 4), extra_heap @ [[(''clicks'', JNum (Fin 6))]])
   \<and> valid extra_heap (JRef 3)
   \<and> get_prop extra_heap (JRef 1) ''type'' = Inr (JStr ''INCREASE_COUNT'')
   \<and> take (length extra_heap) (extra_heap @ [[(''clicks'', JNum (Fin 6))]]) = extra_heap
   \<and> (\<forall>k. get_prop (extra_heap @ [[(''clicks'', JNum (Fin 6))]]) (JRef 3) k
            = get_prop extra_heap (JRef 3) k)
   \<and> (\<exists>b. JRef 4 = JRef b \<and> length extra_heap \<le> b
            \<and> b < length (extra_heap @ [[(''clicks'', JNum (Fin 6))]]))"
proof -
  note th = never_mutates_state [OF extra_heap_increase]
  note a = th [THEN conjunct1]
  note b = th [THEN conjunct2, THEN conjunct1, rule_format, OF extra_heap_facts(4)]
  note c = th [THEN conjunct2, THEN conjunct2, rule_format, OF extra_heap_facts(1) refl]
  from extra_heap_increase extra_heap_facts(4) extra_heap_facts(1) a b c
  show ?thesis by (intro conjI allI) assumption+
qed

subsection \<open>C7\<close>

text \<open>
  C7.  \<open>counterReducer\<close> is deterministic: two invocations on the same state and action,
  the second at any later time (the heap may have grown by further allocations in
  between), have equal results: the same exception, the same primitive value, or
  records with the same fields.
\<close>

theorem deterministic:
  assumes "wf_heap h" and "valid h s" and "valid h a"
    and "counterReducer h s a = (r1, h1)" and "counterReducer (h @ ext) s a = (r2, h2)"
  shows "observe h1 r1 = observe h2 r2"
proof (cases "s = JUndefined")
  case True
  then show ?thesis
    using counterReducer_observe_undefined [OF assms(1,3), of ext] assms(4,5) by simp
next
  case False
  then show ?thesis
    using counterReducer_observe_defined [OF assms(1) False assms(2,3), of ext] assms(4,5) by simp
qed

theorem deterministic_witness:
  "wf_heap extra_heap \<and> valid extra_heap (JRef 3) \<and> valid extra_heap (JRef 1)
   \<and> counterReducer extra_heap (JRef 3) (JRef 1)
       = (Inr (JRef 4), extra_heap @ [[(''clicks'', JNum (Fin 6))]])
   \<and> counterReducer (extra_heap @ [[(''clicks'', JNum (Fin 6))]]) (JRef 3) (JRef 1)
       = (Inr (JRef 5),
          extra_heap @ [[(''clicks'', JNum (Fin 6))]] @ [[(''clicks'', JNum (Fin 6))]])
   \<and> observe (extra_heap @ [[(''clicks'', JNum (Fin 6))]]) (Inr (JRef 4))
       = observe (extra_heap @ [[(''clicks'', JNum (Fin 6))]] @ [[(''clicks'', JNum (Fin 6))]])
           (Inr (JRef 5))"
proof -
  note a = deterministic [OF extra_heap_wf extra_heap_facts(4,5) extra_heap_increase
      extra_heap_increase_later]
  from extra_heap_wf extra_heap_facts(4,5) extra_heap_increase extra_heap_increase_later a
  show ?thesis by (intro conjI) assumption+
qed

subsection \<open>C8\<close>

text \<open>
  C8 (as amended).  \<open>counterReducer\<close> reads \<open>action.type\<close> before any branch: with the
  action \<open>undefined\<close> or \<open>null\<close> it throws a \<open>TypeError\<close> for every state.  With any other
  action it returns for every state on the default branch, and on the
  \<open>"INCREASE_COUNT"\<close> branch for every state that is \<open>undefined\<close> or whose \<open>clicks\<close> can be
  read and is \<open>undefined\<close>, \<open>null\<close>, a boolean, a Number or a string.  On the
  \<open>"INCREASE_COUNT"\<close> branch it throws a \<open>TypeError\<close> when the state is \<open>null\<close>, and when
  the \<open>clicks\<close> of the state is a BigInt or a symbol.
\<close>

theorem returns_for_readable_action:
  "(a = JUndefined \<or> a = JNull \<longrightarrow> fst (counterReducer h s a) = Inl TypeError)
   \<and> (valid h a \<and> a \<noteq> JUndefined \<and> a \<noteq> JNull
        \<and> (get_prop h a ''type'' \<noteq> Inr (JStr ''INCREASE_COUNT'') \<or> s = JUndefined
             \<or> (\<exists>c. get_prop h s ''clicks'' = Inr c \<and> addable c))
        \<longrightarrow> (\<exists>s'. fst (counterReducer h s a) = Inr s'))
   \<and> (get_prop h a ''type'' = Inr (JStr ''INCREASE_COUNT'')
        \<longrightarrow> fst (counterReducer h JNull a) = Inl TypeError)
   \<and> (get_prop h a ''type'' = Inr (JStr ''INCREASE_COUNT'')
        \<and> ((\<exists>n. get_prop h s ''clicks'' = Inr (JBigInt n))
             \<or> (\<exists>i. get_prop h s ''clicks'' = Inr (JSymbol i)))
        \<longrightarrow> fst (counterReducer h s a) = Inl TypeError)"
proof (intro conjI impI)
  assume "a = JUndefined \<or> a = JNull"
  then show "fst (counterReducer h s a) = Inl TypeError"
    by (rule counterReducer_action_error)
next
  assume a: "valid h a \<and> a \<noteq> JUndefined \<and> a \<noteq> JNull
        \<and> (get_prop h a ''type'' \<noteq> Inr (JStr ''INCREASE_COUNT'') \<or> s = JUndefined
             \<or> (\<exists>c. get_prop h s ''clicks'' = Inr c \<and> addable c))"
  then obtain t where t: "get_prop h a ''type'' = Inr t" using get_prop_total by blast
  with a have "t \<noteq> JStr ''INCREASE_COUNT'' \<or> s = JUndefined
         \<or> (\<exists>c. get_prop h s ''clicks'' = Inr c \<and> addable c)" by auto
  with t show "\<exists>s'. fst (counterReducer h s a) = Inr s'" by (rule counterReducer_returns)
next
  assume "get_prop h a ''type'' = Inr (JStr ''INCREASE_COUNT'')"
  then show "fst (counterReducer h JNull a) = Inl TypeError"
    by (simp add: counterReducer_null_state)
next
  assume b: "get_prop h a ''type'' = Inr (JStr ''INCREASE_COUNT'')
        \<and> ((\<exists>n. get_prop h s ''clicks'' = Inr (JBigInt n))
             \<or> (\<exists>i. get_prop h s ''clicks'' = Inr (JSymbol i)))"
  then have "\<exists>c. get_prop h s ''clicks'' = Inr c \<and> plus_one h c = Inl TypeError"
  proof (elim conjE disjE exE)
    fix n
    assume "get_prop h s ''clicks'' = Inr (JBigInt n)"
    moreover have "plus_one h (JBigInt n) = Inl TypeError" by (simp add: plus_one_def)
    ultimately show ?thesis by (intro exI conjI)
  next
    fix i
    assume "get_prop h s ''clicks'' = Inr (JSymbol i)"
    moreover have "plus_one h (JSymbol i) = Inl TypeError" by (simp add: plus_one_def)
    ultimately show ?thesis by (intro exI conjI)
  qed
  then obtain c where c: "get_prop h s ''clicks'' = Inr c" "plus_one h c = Inl TypeError"
    by (elim exE conjE)
  from b have "get_prop h a ''type'' = Inr (JStr ''INCREASE_COUNT'')" by simp
  then have "counterReducer h s a = (Inl TypeError, h)"
    using c by (rule counterReducer_plus_one_throws)
  then show "fst (counterReducer h s a) = Inl TypeError" by simp
qed

theorem returns_for_readable_action_witness:
  "fst (counterReducer scenario_heap JUndefined JNull) = Inl TypeError
   \<and> (\<exists>s'. fst (counterReducer scenario_heap JUndefined (JRef 1)) = Inr s')
   \<and> (\<exists>s'. fst (counterReducer extra_heap (JRef 3) (JRef 1)) = Inr s')
   \<and> fst (counterReducer scenario_heap JNull (JRef 1)) = Inl TypeError
   \<and> get_prop bigint_heap (JRef 3) ''clicks'' = Inr (JBigInt 1)
   \<and> fst (counterReducer bigint_heap (JRef 3) (JRef 1)) = Inl TypeError"
proof -
  have n: "JNull = JUndefined \<or> JNull = JNull" by simp
  have p: "addable (JNum (Fin 5))" by (simp add: addable_def)
  have h1: "valid scenario_heap (JRef 1) \<and> JRef 1 \<noteq> JUndefined \<and> JRef 1 \<noteq> JNull
        \<and> (get_prop scenario_heap (JRef 1) ''type'' \<noteq> Inr (JStr ''INCREASE_COUNT'')
             \<or> JUndefined = JUndefined
             \<or> (\<exists>c. get_prop scenario_heap JUndefined ''clicks'' = Inr c \<and> addable c))"
    using scenario_heap_valid(1) by simp
  have h2: "valid extra_heap (JRef 1) \<and> JRef 1 \<noteq> JUndefined \<and> JRef 1 \<noteq> JNull
        \<and> (get_prop extra_heap (JRef 1) ''type'' \<noteq> Inr (JStr ''INCREASE_COUNT'')
             \<or> JRef 3 = JUndefined
             \<or> (\<exists>c. get_prop extra_heap (JRef 3) ''clicks'' = Inr c \<and> addable c))"
    using extra_heap_facts(2,5) p by blast
  have h3: "get_prop bigint_heap (JRef 1) ''type'' = Inr (JStr ''INCREASE_COUNT'')
        \<and> ((\<exists>n. get_prop bigint_heap (JRef 3) ''clicks'' = Inr (JBigInt n))
             \<or> (\<exists>i. get_prop bigint_heap (JRef 3) ''clicks'' = Inr (JSymbol i)))"
    by (intro conjI disjI1 exI) (rule bigint_heap_facts)+
  note a = returns_for_readable_action [of JNull scenario_heap JUndefined,
      THEN conjunct1, rule_format, OF n]
  note b = returns_for_readable_action [of "JRef 1" scenario_heap JUndefined,
      THEN conjunct2, THEN conjunct1, rule_format, OF h1]
  note c = returns_for_readable_action [of "JRef 1" extra_heap "JRef 3",
      THEN conjunct2, THEN conjunct1, rule_format, OF h2]
  note d = returns_for_readable_action [of "JRef 1" scenario_heap,
      THEN conjunct2, THEN conjunct2, THEN conjunct1, rule_format, OF scenario_heap_actions(2)]
  note e = returns_for_readable_action [of "JRef 1" bigint_heap "JRef 3",
      THEN conjunct2, THEN conjunct2, THEN conjunct2, rule_format, OF h3]
  from a b c d bigint_heap_facts(2) e show ?thesis by (intro conjI) assumption+
qed

text \<open>
  C8 as stated, total for every state once the action is a non-null object, fails at the
  state \<open>null\<close>: the default parameter replaces only \<open>undefined\<close>, and with the action
  \<open>{type: "INCREASE_COUNT"}\<close> reading \<open>state.clicks\<close> throws a \<open>TypeError\<close>.
\<close>

theorem returns_for_readable_action_counterexample:
  "valid scenario_heap (JRef 1)
   \<and> get_prop scenario_heap (JRef 1) ''type'' = Inr (JStr ''INCREASE_COUNT'')
   \<and> counterReducer scenario_heap JNull (JRef 1) = (Inl TypeError, scenario_heap)"
  using scenario_heap_valid(1) scenario_heap_actions(2)
    counterReducer_null_state [OF scenario_heap_actions(2)]
  by (intro conjI) assumption+

subsection \<open>C9\<close>

text \<open>
  C9.  On the \<open>"INCREASE_COUNT"\<close> branch every state returned is a record allocated by the
  call whose own fields are exactly one, \<open>clicks\<close>: it has no own property of any other
  name, whatever fields the input state carries, so none is carried over.  The call
  does return whenever the \<open>clicks\<close> of the state can be read and is \<open>undefined\<close>, \<open>null\<close>, a
  boolean, a Number or a string.
\<close>

theorem increase_result_only_clicks:
  assumes "get_prop h a ''type'' = Inr (JStr ''INCREASE_COUNT'')"
  shows "(\<forall>s' h'. counterReducer h s a = (Inr s', h') \<longrightarrow>
            (\<exists>b v. s' = JRef b \<and> length h \<le> b \<and> b < length h'
               \<and> h' ! b = [(''clicks'', v)]
               \<and> (\<forall>k. k \<noteq> ''clicks'' \<longrightarrow> map_of (h' ! b) k = None)))
       \<and> (\<forall>c. get_prop h s ''clicks'' = Inr c \<and> addable c \<longrightarrow>
            (\<exists>s' h'. counterReducer h s a = (Inr s', h')))"
proof (intro conjI allI impI)
  fix s' h'
  assume run: "counterReducer h s a = (Inr s', h')"
  from counterReducer_increase_fresh [OF assms run] obtain v where
    v: "s' = JRef (length h' - 1)" "length h < length h'" "h' ! (length h' - 1) = [(''clicks'', v)]"
    by blast
  have "\<forall>k. k \<noteq> ''clicks'' \<longrightarrow> map_of (h' ! (length h' - 1)) k = None"
    unfolding v(3) by simp
  moreover have "length h \<le> length h' - 1" "length h' - 1 < length h'" using v(2) by simp_all
  ultimately show "\<exists>b v. s' = JRef b \<and> length h \<le> b \<and> b < length h'
               \<and> h' ! b = [(''clicks'', v)]
               \<and> (\<forall>k. k \<noteq> ''clicks'' \<longrightarrow> map_of (h' ! b) k = None)"
    using v(1,3) by (intro exI [of _ "length h' - 1"] exI [of _ v] conjI)
next
  fix c
  assume c: "get_prop h s ''clicks'' = Inr c \<and> addable c"
  then obtain v where "plus_one h c = Inr v" using plus_one_addable by blast
  with assms c show "\<exists>s' h'. counterReducer h s a = (Inr s', h')"
    using counterReducer_increase by blast
qed

theorem increase_result_only_clicks_witness:
  "get_prop extra_heap (JRef 1) ''type'' = Inr (JStr ''INCREASE_COUNT'')
   \<and> map_of (extra_heap ! 3) ''user'' = Some (JStr ''ann'')
   \<and> counterReducer extra_heap (JRef 3) (JRef 1)
       = (Inr (JRef 4), extra_heap @ [[(''clicks'', JNum (Fin 6))]])
   \<and> (\<exists>b v. JRef 4 = JRef b \<and> length extra_heap \<le> b
         \<and> b < length (extra_heap @ [[(''clicks'', JNum (Fin 6))]])
         \<and> (extra_heap @ [[(''clicks'', JNum (Fin 6))]]) ! b = [(''clicks'', v)]
         \<and> (\<forall>k. k \<noteq> ''clicks'' \<longrightarrow>
               map_of ((extra_heap @ [[(''clicks'', JNum (Fin 6))]]) ! b) k = None))
   \<and> map_of ((extra_heap @ [[(''clicks'', JNum (Fin 6))]]) ! 4) ''user'' = None
   \<and> get_prop extra_heap (JRef 3) ''clicks'' = Inr (JNum (Fin 5))
   \<and> addable (JNum (Fin 5))
   \<and> (\<exists>s' h'. counterReducer extra_heap (JRef 3) (JRef 1) = (Inr s', h'))"
proof -
  have ne: "''user'' \<noteq> ''clicks''" by simp
  have p: "addable (JNum (Fin 5))" by (simp add: addable_def)
  note th = increase_result_only_clicks [OF extra_heap_facts(1), of "JRef 3"]
  note a = th [THEN conjunct1, rule_format, OF extra_heap_increase]
  note b = th [THEN conjunct2, rule_format, OF conjI [OF extra_heap_facts(2) p]]
  from a obtain b' and v :: jsval where b': "JRef 4 = JRef b'"
    "\<forall>k. k \<noteq> ''clicks'' \<longrightarrow>
       map_of ((extra_heap @ [[(''clicks'', JNum (Fin 6))]]) ! b') k = None"
    by (elim exE conjE)
  from b'(1) have "b' = 4" by simp
  then have c: "map_of ((extra_heap @ [[(''clicks'', JNum (Fin 6))]]) ! 4) ''user'' = None"
    using b'(2) [rule_format, OF ne] by simp
  from extra_heap_facts(1) extra_heap_facts(3) extra_heap_increase a c extra_heap_facts(2) p b
  show ?thesis by (intro conjI) assumption+
qed

subsection \<open>C10\<close>

text \<open>
  C10 (as amended).  For every state whose \<open>clicks\<close> is an integer and every action, the
  call either throws while reading \<open>action.type\<close> or returns a state whose \<open>clicks\<close> is an
  integer greater than or equal to the one before; it is the same value when the \<open>type\<close>
  is not \<open>"INCREASE_COUNT"\<close>.  When \<open>clicks\<close> lies in \<open>- 2 ^ 53 \<le> clicks < 2 ^ 53\<close>, it
  increases by exactly 1 exactly when the \<open>type\<close> equals \<open>"INCREASE_COUNT"\<close>.
\<close>

theorem clicks_monotone:
  assumes "get_prop h s ''clicks'' = Inr c" and "integer_value c"
  shows "case counterReducer h s a of
           (Inl e, h') \<Rightarrow> get_prop h a ''type'' = Inl e
         | (Inr s', h') \<Rightarrow>
             (\<exists>c'. get_prop h' s' ''clicks'' = Inr c' \<and> integer_value c'
                \<and> number_value c \<le> number_value c'
                \<and> (get_prop h a ''type'' \<noteq> Inr (JStr ''INCREASE_COUNT'') \<longrightarrow> c' = c)
                \<and> (- (2 ^ 53) \<le> number_value c \<and> number_value c < 2 ^ 53 \<longrightarrow>
                     (number_value c' = number_value c + 1)
                       = (get_prop h a ''type'' = Inr (JStr ''INCREASE_COUNT''))))"
proof -
  from assms(2) obtain n where cn: "c = JNum n" and n: "wf_num n" "is_integer n"
    by (auto simp: integer_value_def split: jsval.splits)
  note step = counterReducer_integer_clicks [OF assms(1) [unfolded cn] n, of a]
  note add = add_one_num [OF n]
  obtain r h' where run: "counterReducer h s a = (r, h')" by (cases "counterReducer h s a")
  show ?thesis
  proof (cases r)
    case (Inl e)
    then show ?thesis using step run by simp
  next
    case (Inr s')
    show ?thesis
    proof (cases "get_prop h a ''type'' = Inr (JStr ''INCREASE_COUNT'')")
      case True
      then have c': "get_prop h' s' ''clicks'' = Inr (JNum (num_add n (Fin 1)))"
        using step run Inr by simp
      have exact: "- (2 ^ 53) \<le> num_val n \<and> num_val n < 2 ^ 53 \<longrightarrow>
          num_val (num_add n (Fin 1)) = num_val n + 1"
        using add_one_num_exact [OF n(2)] by blast
      show ?thesis
        unfolding run Inr prod.case sum.case
        by (rule exI [of _ "JNum (num_add n (Fin 1))"])
          (use c' add True exact in \<open>simp add: integer_value_def number_value_def cn\<close>)
    next
      case False
      then have "s' = s \<and> h' = h" using step run Inr by simp
      then show ?thesis
        unfolding run Inr prod.case sum.case
        by (intro exI [of _ c]) (use assms False in simp)
    qed
  qed
qed

theorem clicks_monotone_witness:
  "get_prop extra_heap (JRef 3) ''clicks'' = Inr (JNum (Fin 5))
   \<and> integer_value (JNum (Fin 5))
   \<and> counterReducer extra_heap (JRef 3) (JRef 1)
       = (Inr (JRef 4), extra_heap @ [[(''clicks'', JNum (Fin 6))]])
   \<and> (\<exists>c'. get_prop (extra_heap @ [[(''clicks'', JNum (Fin 6))]]) (JRef 4) ''clicks'' = Inr c'
         \<and> integer_value c'
         \<and> number_value (JNum (Fin 5)) \<le> number_value c'
         \<and> (get_prop extra_heap (JRef 1) ''type'' \<noteq> Inr (JStr ''INCREASE_COUNT'')
              \<longrightarrow> c' = JNum (Fin 5))
         \<and> (- (2 ^ 53) \<le> number_value (JNum (Fin 5)) \<and> number_value (JNum (Fin 5)) < 2 ^ 53
              \<longrightarrow> (number_value c' = number_value (JNum (Fin 5)) + 1)
                   = (get_prop extra_heap (JRef 1) ''type'' = Inr (JStr ''INCREASE_COUNT''))))"
proof -
  note a = clicks_monotone [OF extra_heap_facts(2) integer_value_five, of "JRef 1",
      unfolded extra_heap_increase prod.case sum.case]
  from extra_heap_facts(2) integer_value_five extra_heap_increase a
  show ?thesis by (intro conjI) assumption+
qed

text \<open>
  C10 as stated fails for large integers: with \<open>clicks\<close> equal to \<open>2 ^ 53\<close>, an action of
  type \<open>"INCREASE_COUNT"\<close> returns a state whose \<open>clicks\<close> is again \<open>2 ^ 53\<close>, not one more.
\<close>

theorem clicks_monotone_counterexample:
  "get_prop saturated_heap (JRef 3) ''clicks'' = Inr (JNum (Fin (2 ^ 53)))
   \<and> integer_value (JNum (Fin (2 ^ 53)))
   \<and> get_prop saturated_heap (JRef 1) ''type'' = Inr (JStr ''INCREASE_COUNT'')
   \<and> counterReducer saturated_heap (JRef 3) (JRef 1)
       = (Inr (JRef 4), saturated_heap @ [[(''clicks'', JNum (Fin (2 ^ 53)))]])
   \<and> get_prop (saturated_heap @ [[(''clicks'', JNum (Fin (2 ^ 53)))]]) (JRef 4) ''clicks''
       = Inr (JNum (Fin (2 ^ 53)))
   \<and> number_value (JNum (Fin (2 ^ 53))) \<noteq> number_value (JNum (Fin (2 ^ 53))) + 1"
proof -
  have "get_prop (saturated_heap @ [[(''clicks'', JNum (Fin (2 ^ 53)))]]) (JRef 4) ''clicks''
       = Inr (JNum (Fin (2 ^ 53)))"
    by (simp add: saturated_heap_def scenario_heap_def get_own_def)
  moreover have "number_value (JNum (Fin (2 ^ 53))) \<noteq> number_value (JNum (Fin (2 ^ 53))) + 1"
    by simp
  ultimately show ?thesis
    using saturated_heap_facts integer_value_pow53 saturated_heap_increase
    by (intro conjI) assumption+
qed

end
